theory Spec2Isabelle
  imports Main "HOL-Library.Word" "HOL-Library.Sublist"
begin

section \<open>Go library functions used by the key builder\<close>

text \<open>
  Go strings are byte strings; they are modelled as \<open>string\<close> (a list of 8-bit
  characters). The key builder of \<^verbatim>\<open>internal/keys\<close> calls three library functions:
  \<^verbatim>\<open>time.Time.Format("2006/01/02")\<close>, \<^verbatim>\<open>fmt.Sprintf\<close> with \<^verbatim>\<open>%s\<close> verbs only (plain
  concatenation) and \<^verbatim>\<open>path.Join\<close>. The first and the last are modelled here after the Go
  standard library's own code.
\<close>

subsection \<open>time.Format for the layout 2006/01/02\<close>

definition digit_char :: "nat \<Rightarrow> char" where
  "digit_char d = ''0123456789'' ! d"

text \<open>The decimal digits of a natural number, most significant first.\<close>

fun decimal :: "nat \<Rightarrow> string" where
  "decimal n = (if n < 10 then [digit_char n] else decimal (n div 10) @ [digit_char (n mod 10)])"

declare decimal.simps [simp del]

text \<open>
  \<^verbatim>\<open>appendInt(b, x, width)\<close> of package time: a minus sign when \<open>x\<close> is negative, then the
  digits of the absolute value, padded with zeros on the left up to \<open>width\<close>.
\<close>

definition appendInt :: "string \<Rightarrow> int \<Rightarrow> nat \<Rightarrow> string" where
  "appendInt b x width =
     (let b1 = (if x < 0 then b @ ''-'' else b);
          ds = decimal (nat \<bar>x\<bar>)
      in b1 @ replicate (width - length ds) CHR ''0'' @ ds)"

text \<open>The civil date of a \<^verbatim>\<open>time.Time\<close> value: the only part of it the layout reads.\<close>

record date =
  year :: int
  month :: nat
  day :: nat

text \<open>\<^verbatim>\<open>t.Format("2006/01/02")\<close>: the year on four digits, the month and the day on two.\<close>

definition Format_2006_01_02 :: "date \<Rightarrow> string" where
  "Format_2006_01_02 t =
     appendInt (appendInt (appendInt [] (year t) 4 @ ''/'') (int (month t)) 2 @ ''/'') (int (day t)) 2"

subsection \<open>path.Clean and path.Join\<close>

text \<open>
  \<^verbatim>\<open>path.Clean\<close> reads the path from index \<open>r\<close> and writes into a buffer of which the
  first \<open>w\<close> bytes are valid; the model keeps the unread part of the path and the valid
  part of the buffer. \<open>dotdot\<close> is the index in the buffer below which a \<open>..\<close> element may
  not remove anything.

  The backtracking step of a \<open>..\<close> element: \<open>w\<close> has been decremented once already; it
  goes on down to \<open>dotdot\<close> or to the last slash.
\<close>

fun backtrack :: "nat \<Rightarrow> string \<Rightarrow> nat \<Rightarrow> nat" where
  "backtrack dotdot out w =
     (if w > dotdot \<and> out ! w \<noteq> CHR ''/'' then backtrack dotdot out (w - 1) else w)"

declare backtrack.simps [simp del]

function clean_loop :: "bool \<Rightarrow> nat \<Rightarrow> string \<Rightarrow> string \<Rightarrow> string" where
  "clean_loop rooted dotdot out path =
     (case path of
        [] \<Rightarrow> out
      | c # rest \<Rightarrow>
          if c = CHR ''/'' then
            clean_loop rooted dotdot out rest
          else if c = CHR ''.'' \<and> (rest = [] \<or> hd rest = CHR ''/'') then
            clean_loop rooted dotdot out rest
          else if c = CHR ''.'' \<and> hd rest = CHR ''.'' \<and> (tl rest = [] \<or> hd (tl rest) = CHR ''/'') then
            (if length out > dotdot then
               clean_loop rooted dotdot (take (backtrack dotdot out (length out - 1)) out) (tl rest)
             else if \<not> rooted then
               (let out1 = (if length out > 0 then out @ ''/'' else out) @ ''..''
                in clean_loop rooted (length out1) out1 (tl rest))
             else clean_loop rooted dotdot out (tl rest))
          else
            (let out1 = (if rooted \<and> length out \<noteq> 1 \<or> \<not> rooted \<and> length out \<noteq> 0
                         then out @ ''/'' else out)
             in clean_loop rooted dotdot
                  (out1 @ takeWhile (\<lambda>x. x \<noteq> CHR ''/'') path)
                  (dropWhile (\<lambda>x. x \<noteq> CHR ''/'') path)))"
  by pat_completeness auto
termination
proof (relation "measure (\<lambda>(rooted, dotdot, out, path). length path)")
  fix path :: string and c rest
  assume "path = c # rest" and "c \<noteq> CHR ''/''"
  then have "length (dropWhile (\<lambda>x. x \<noteq> CHR ''/'') path) \<le> length rest"
    by (simp add: length_dropWhile_le)
  then show "((rooted, dotdot, out1 @ takeWhile (\<lambda>x. x \<noteq> CHR ''/'') path,
               dropWhile (\<lambda>x. x \<noteq> CHR ''/'') path), (rooted, dotdot, out, path))
             \<in> measure (\<lambda>(rooted, dotdot, out, path). length path)"
    for rooted :: bool and dotdot :: nat and out out1 :: string
    using \<open>path = c # rest\<close> by simp
qed (auto split: list.splits)

declare clean_loop.simps [simp del]

definition Clean :: "string \<Rightarrow> string" where
  "Clean path =
     (if path = [] then ''.''
      else
        (let rooted = (hd path = CHR ''/'');
             out = (if rooted then clean_loop rooted 1 ''/'' (tl path)
                    else clean_loop rooted 0 [] path)
         in if out = [] then ''.'' else out))"

text \<open>
  \<^verbatim>\<open>path.Join\<close>: the empty elements before the first non-empty one are skipped, every
  later element is appended after a slash, and the result is cleaned; no element at all,
  or only empty ones, give the empty string.
\<close>

definition join_step :: "string \<Rightarrow> string \<Rightarrow> string" where
  "join_step buf e =
     (if length buf > 0 \<or> e \<noteq> [] then (if length buf > 0 then buf @ ''/'' else buf) @ e else buf)"

definition Join :: "string list \<Rightarrow> string" where
  "Join elem =
     (if sum_list (map length elem) = 0 then []
      else Clean (foldl join_step [] elem))"

section \<open>Package keys: the key builder\<close>

text \<open>
  The \<^verbatim>\<open>Builder\<close> struct. \<^verbatim>\<open>NewBuilder\<close> reads the clock once
  (\<^verbatim>\<open>time.Now().UTC()\<close>); the model takes that reading as the argument \<open>now\<close>.
\<close>

record Builder =
  project :: string
  env :: string
  failureID :: string
  date :: date

definition NewBuilder :: "string \<Rightarrow> string \<Rightarrow> string \<Rightarrow> date \<Rightarrow> Builder" where
  "NewBuilder p e fid now = \<lparr>project = p, env = e, failureID = fid, date = now\<rparr>"

definition WithDate :: "Builder \<Rightarrow> date \<Rightarrow> Builder" where
  "WithDate b t = b\<lparr>date := t\<rparr>"

text \<open>\<^verbatim>\<open>fmt.Sprintf("failures/%s/%s/%s/%s/", project, env, date.Format("2006/01/02"), failureID)\<close>\<close>

definition Prefix :: "Builder \<Rightarrow> string" where
  "Prefix b =
     ''failures/'' @ project b @ ''/'' @ env b @ ''/'' @ Format_2006_01_02 (date b) @ ''/''
       @ failureID b @ ''/''"

definition Envelope :: "Builder \<Rightarrow> string" where
  "Envelope b = Join [Prefix b, ''envelope.json'']"

definition RequestRaw :: "Builder \<Rightarrow> string" where
  "RequestRaw b = Join [Prefix b, ''request.raw'']"

definition RequestHeaders :: "Builder \<Rightarrow> string" where
  "RequestHeaders b = Join [Prefix b, ''request.headers.json'']"

definition ResponseRaw :: "Builder \<Rightarrow> string" where
  "ResponseRaw b = Join [Prefix b, ''response.raw'']"

definition Checksums :: "Builder \<Rightarrow> string" where
  "Checksums b = Join [Prefix b, ''checksums.json'']"

definition File :: "Builder \<Rightarrow> string \<Rightarrow> string" where
  "File b filename = Join [Prefix b, ''files'', filename]"

definition RequiredKeys :: "Builder \<Rightarrow> string list" where
  "RequiredKeys b = [Envelope b, RequestRaw b, RequestHeaders b, Checksums b]"

text \<open>The loop of \<^verbatim>\<open>AllKeys\<close> appends one key per file name, in order.\<close>

definition AllKeys :: "Builder \<Rightarrow> string list \<Rightarrow> string list" where
  "AllKeys b filenames =
     foldl (\<lambda>keys f. keys @ [File b f]) (RequiredKeys b @ [ResponseRaw b]) filenames"

section \<open>Packages config and models\<close>

text \<open>
  \<^verbatim>\<open>config.Config\<close>. The byte ceilings are \<^verbatim>\<open>int64\<close>. \<open>PresignTTL\<close> is kept in whole
  seconds: \<^verbatim>\<open>Load\<close> builds it as \<^verbatim>\<open>presignTTL * time.Second\<close>, and the handlers read it back
  only through \<^verbatim>\<open>int(PresignTTL.Seconds())\<close>.
\<close>

record Config =
  BucketName :: string
  AWSRegion :: string
  SESFrom :: string
  SESTo :: string
  PresignTTL :: int
  APIKey :: string
  Stage :: string
  MaxBodyBytes :: "64 word"
  MaxFileBytes :: "64 word"
  MaxTotalBytes :: "64 word"
  AuthEnabled :: bool

text \<open>
  The structs of \<^verbatim>\<open>internal/models\<close>. A field name that two structs share carries a
  suffix in all but one of them (\<open>_f\<close> file, \<open>_c\<close> completion request, \<open>_u\<close> upload URLs,
  \<open>_n\<close> notification).
\<close>

record FileInfo =
  Name :: string
  Filename :: string
  ContentType_f :: string
  Bytes :: "64 word"

record RequestInfo =
  Method :: string
  URL :: string
  ContentType :: string
  BodyBytes :: "64 word"
  Files :: "FileInfo list"

record ClientInfo =
  AppVersion :: string
  Platform :: string

record UploadTicketRequest =
  Project :: string
  Env :: string
  Request :: RequestInfo
  Client :: ClientInfo

record PresignedUpload =
  Key :: string
  PutURL :: string

record UploadURLs =
  Envelope_u :: PresignedUpload
  RequestRaw_u :: PresignedUpload
  RequestHeaders_u :: PresignedUpload
  ResponseRaw_u :: PresignedUpload
  Files_u :: "PresignedUpload list"
  Checksums_u :: PresignedUpload

record UploadTicketResponse =
  FailureID :: string
  S3Prefix :: string
  Uploads :: UploadURLs
  ExpiresInSeconds :: int

record UploadCompleteRequest =
  FailureID_c :: string
  Project_c :: string
  Env_c :: string
  UploadedKeys :: "string list"
  SHA256 :: "string \<rightharpoonup> string"

record UploadCompleteResponse =
  Status :: string

record ErrorResponse =
  Error :: string
  Code :: string
  Details :: string

section \<open>Package validation\<close>

text \<open>
  The two regular expressions \<^verbatim>\<open>^[a-zA-Z0-9_-]{1,64}$\<close> and \<^verbatim>\<open>^[a-zA-Z0-9_-]{1,32}$\<close>:
  between one and 64 (32) bytes, each of the class.
\<close>

definition word_class :: string where
  "word_class = ''abcdefghijklmnopqrstuvwxyzABCDEFGHIJKLMNOPQRSTUVWXYZ0123456789_-''"

definition projectRegex :: "string \<Rightarrow> bool" where
  "projectRegex s = (1 \<le> length s \<and> length s \<le> 64 \<and> list_all (\<lambda>c. c \<in> set word_class) s)"

definition envRegex :: "string \<Rightarrow> bool" where
  "envRegex s = (1 \<le> length s \<and> length s \<le> 32 \<and> list_all (\<lambda>c. c \<in> set word_class) s)"

definition platformRegex :: "string \<Rightarrow> bool" where
  "platformRegex s = (s \<in> set [''ios'', ''android'', ''web'', ''desktop''])"

definition methodRegex :: "string \<Rightarrow> bool" where
  "methodRegex s = (s \<in> set [''GET'', ''POST'', ''PUT'', ''PATCH'', ''DELETE'', ''HEAD'', ''OPTIONS''])"

text \<open>\<^verbatim>\<open>strings.HasPrefix\<close>\<close>

definition HasPrefix :: "string \<Rightarrow> string \<Rightarrow> bool" where
  "HasPrefix s pre = (length s \<ge> length pre \<and> take (length pre) s = pre)"

text \<open>The verb \<^verbatim>\<open>%d\<close> of \<^verbatim>\<open>fmt.Sprintf\<close>.\<close>

definition fmt_d :: "int \<Rightarrow> string" where
  "fmt_d x = (if x < 0 then ''-'' else []) @ decimal (nat \<bar>x\<bar>)"

record ValidationError =
  Field :: string
  Message :: string

text \<open>
  \<^verbatim>\<open>strings.ToUpper\<close> and \<^verbatim>\<open>strings.ToLower\<close> follow the Unicode case tables; the validation
  takes them as the parameters \<open>ToUpper\<close> and \<open>ToLower\<close>.

  The loop over the declared files: it numbers the files from \<open>i\<close>, appends to \<open>errors\<close>
  and adds the sizes up in \<open>totalFileBytes\<close>, an \<^verbatim>\<open>int64\<close> that wraps.
\<close>

fun validate_files ::
  "Config \<Rightarrow> nat \<Rightarrow> FileInfo list \<Rightarrow> ValidationError list \<Rightarrow> 64 word \<Rightarrow> ValidationError list \<times> 64 word"
where
  "validate_files cfg i [] errors totalFileBytes = (errors, totalFileBytes)"
| "validate_files cfg i (file # rest) errors totalFileBytes =
     (let errors1 =
            (if Filename file = [] then
               errors @ [\<lparr>Field = ''request.files['' @ fmt_d (int i) @ ''].filename'', Message = ''required''\<rparr>]
             else errors);
          errors2 =
            (if sint (Bytes file) < 0 then
               errors1 @ [\<lparr>Field = ''request.files['' @ fmt_d (int i) @ ''].bytes'',
                            Message = ''cannot be negative''\<rparr>]
             else if sint (Bytes file) > sint (MaxFileBytes cfg) then
               errors1 @ [\<lparr>Field = ''request.files['' @ fmt_d (int i) @ ''].bytes'',
                            Message = ''exceeds maximum allowed size ('' @ fmt_d (sint (MaxFileBytes cfg)) @ '' bytes)''\<rparr>]
             else errors1)
      in validate_files cfg (i + 1) rest errors2 (totalFileBytes + Bytes file))"

definition ValidateUploadTicketRequest ::
  "(string \<Rightarrow> string) \<Rightarrow> (string \<Rightarrow> string) \<Rightarrow> UploadTicketRequest \<Rightarrow> Config \<Rightarrow> ValidationError list"
where
  "ValidateUploadTicketRequest ToUpper ToLower req cfg =
     (let errors0 = [];
          errors1 =
            (if Project req = [] then errors0 @ [\<lparr>Field = ''project'', Message = ''required''\<rparr>]
             else if \<not> projectRegex (Project req) then
               errors0 @ [\<lparr>Field = ''project'',
                            Message = ''invalid format (alphanumeric, underscore, hyphen, max 64 chars)''\<rparr>]
             else errors0);
          errors2 =
            (if Env req = [] then errors1 @ [\<lparr>Field = ''env'', Message = ''required''\<rparr>]
             else if \<not> envRegex (Env req) then
               errors1 @ [\<lparr>Field = ''env'',
                            Message = ''invalid format (alphanumeric, underscore, hyphen, max 32 chars)''\<rparr>]
             else errors1);
          errors3 =
            (if Method (Request req) = [] then
               errors2 @ [\<lparr>Field = ''request.method'', Message = ''required''\<rparr>]
             else if \<not> methodRegex (ToUpper (Method (Request req))) then
               errors2 @ [\<lparr>Field = ''request.method'', Message = ''invalid HTTP method''\<rparr>]
             else errors2);
          errors4 =
            (if URL (Request req) = [] then
               errors3 @ [\<lparr>Field = ''request.url'', Message = ''required''\<rparr>]
             else if \<not> HasPrefix (URL (Request req)) ''http://'' \<and> \<not> HasPrefix (URL (Request req)) ''https://'' then
               errors3 @ [\<lparr>Field = ''request.url'', Message = ''must be a valid HTTP(S) URL''\<rparr>]
             else errors3);
          errors5 =
            (if sint (BodyBytes (Request req)) < 0 then
               errors4 @ [\<lparr>Field = ''request.bodyBytes'', Message = ''cannot be negative''\<rparr>]
             else if sint (BodyBytes (Request req)) > sint (MaxBodyBytes cfg) then
               errors4 @ [\<lparr>Field = ''request.bodyBytes'',
                            Message = ''exceeds maximum allowed size ('' @ fmt_d (sint (MaxBodyBytes cfg)) @ '' bytes)''\<rparr>]
             else errors4);
          (errors6, totalFileBytes) = validate_files cfg 0 (Files (Request req)) errors5 0;
          totalBytes = BodyBytes (Request req) + totalFileBytes;
          errors7 =
            (if sint totalBytes > sint (MaxTotalBytes cfg) then
               errors6 @ [\<lparr>Field = ''totalBytes'',
                            Message = ''total upload size exceeds maximum ('' @ fmt_d (sint (MaxTotalBytes cfg)) @ '' bytes)''\<rparr>]
             else errors6);
          errors8 =
            (if Platform (Client req) \<noteq> [] \<and> \<not> platformRegex (ToLower (Platform (Client req))) then
               errors7 @ [\<lparr>Field = ''client.platform'', Message = ''must be one of: ios, android, web, desktop''\<rparr>]
             else errors7)
      in errors8)"

definition ValidateUploadCompleteRequest :: "UploadCompleteRequest \<Rightarrow> ValidationError list" where
  "ValidateUploadCompleteRequest req =
     (let errors0 = [];
          errors1 =
            (if FailureID_c req = [] then errors0 @ [\<lparr>Field = ''failureId'', Message = ''required''\<rparr>]
             else errors0);
          errors2 =
            (if Project_c req = [] then errors1 @ [\<lparr>Field = ''project'', Message = ''required''\<rparr>]
             else if \<not> projectRegex (Project_c req) then
               errors1 @ [\<lparr>Field = ''project'', Message = ''invalid format''\<rparr>]
             else errors1);
          errors3 =
            (if Env_c req = [] then errors2 @ [\<lparr>Field = ''env'', Message = ''required''\<rparr>]
             else if \<not> envRegex (Env_c req) then
               errors2 @ [\<lparr>Field = ''env'', Message = ''invalid format''\<rparr>]
             else errors2);
          errors4 =
            (if length (UploadedKeys req) = 0 then
               errors3 @ [\<lparr>Field = ''uploadedKeys'', Message = ''required''\<rparr>]
             else errors3)
      in errors4)"

section \<open>What the handlers leave behind\<close>

text \<open>
  A handler answers one HTTP response; besides, it writes log events (package
  \<^verbatim>\<open>logging\<close>, a zerolog logger) and may call \<^verbatim>\<open>SendEmail\<close> of SES. Both are recorded in
  order as a list of events. A function with such effects returns its result together
  with the events it produced.
\<close>

datatype aws_error = NotFound | AccessDenied | RequestTimeout | OtherError string

datatype log_level = InfoLevel | WarnLevel | ErrorLevel

datatype log_field =
    StrField string string
  | StrsField string "string list"
  | IntField string int
  | ErrField aws_error

text \<open>\<^verbatim>\<open>email.FailureNotification\<close>\<close>

record FailureNotification =
  FailureID_n :: string
  Project_n :: string
  Env_n :: string
  Method_n :: string
  URL_n :: string
  AppVersion_n :: string
  Platform_n :: string
  EnvelopeURL :: string

text \<open>
  The \<^verbatim>\<open>ses.SendEmailInput\<close> that \<^verbatim>\<open>SendFailureNotification\<close> builds. The text body and the
  HTML body are two fixed templates filled with the fields of the notification; the model
  keeps the notification in their place.
\<close>

record SendEmailInput =
  Source :: string
  ToAddresses :: "string list"
  Subject :: string
  BodyOf :: FailureNotification

datatype event =
    LogEvent log_level "log_field list" string
  | SendEmailCall SendEmailInput

section \<open>Package s3client\<close>

text \<open>
  The S3 client of the AWS SDK, as far as the presigner calls it: what \<^verbatim>\<open>HeadObject\<close>
  answers for a bucket and a key (\<open>None\<close>: the object is there; \<open>Some NotFound\<close>: the
  store answered that it is not; any other error: the request itself failed), and what
  the two presign calls answer for a bucket, a key, (a content type) and a validity.
\<close>

record S3Client =
  HeadObject :: "string \<Rightarrow> string \<Rightarrow> aws_error option"
  PresignPutObject :: "string \<Rightarrow> string \<Rightarrow> string \<Rightarrow> int \<Rightarrow> aws_error + string"
  PresignGetObject :: "string \<Rightarrow> string \<Rightarrow> int \<Rightarrow> aws_error + string"

record Presigner =
  client :: S3Client
  bucket :: string
  ttl :: int

definition PresignPut :: "Presigner \<Rightarrow> string \<Rightarrow> string \<Rightarrow> (aws_error + string) \<times> event list" where
  "PresignPut p key contentType =
     (case PresignPutObject (client p) (bucket p) key contentType (ttl p) of
        Inl err \<Rightarrow>
          (Inl err, [LogEvent ErrorLevel [ErrField err, StrField ''key'' key] ''failed to presign PUT URL''])
      | Inr url \<Rightarrow> (Inr url, []))"

definition PresignGet :: "Presigner \<Rightarrow> string \<Rightarrow> (aws_error + string) \<times> event list" where
  "PresignGet p key =
     (case PresignGetObject (client p) (bucket p) key (ttl p) of
        Inl err \<Rightarrow>
          (Inl err, [LogEvent ErrorLevel [ErrField err, StrField ''key'' key] ''failed to presign GET URL''])
      | Inr url \<Rightarrow> (Inr url, []))"

text \<open>
  \<^verbatim>\<open>ObjectExists\<close> returns \<^verbatim>\<open>(false, nil)\<close> on every error of \<^verbatim>\<open>HeadObject\<close>, whatever the
  error is, and \<^verbatim>\<open>(true, nil)\<close> otherwise.
\<close>

definition ObjectExists :: "Presigner \<Rightarrow> string \<Rightarrow> aws_error + bool" where
  "ObjectExists p key =
     (case HeadObject (client p) (bucket p) key of
        Some err \<Rightarrow> Inr False
      | None \<Rightarrow> Inr True)"

text \<open>The loop of \<^verbatim>\<open>VerifyObjectsExist\<close>, with the slice \<open>missing\<close> it appends to.\<close>

fun verify_loop :: "Presigner \<Rightarrow> string list \<Rightarrow> string list \<Rightarrow> aws_error + string list" where
  "verify_loop p [] missing = Inr missing"
| "verify_loop p (key # keys) missing =
     (case ObjectExists p key of
        Inl err \<Rightarrow> Inl err
      | Inr exists \<Rightarrow> verify_loop p keys (if \<not> exists then missing @ [key] else missing))"

definition VerifyObjectsExist :: "Presigner \<Rightarrow> string list \<Rightarrow> aws_error + string list" where
  "VerifyObjectsExist p keys = verify_loop p keys []"

section \<open>Package email\<close>

text \<open>The sender: the answer of SES to \<^verbatim>\<open>SendEmail\<close> (\<open>None\<close>: accepted), and the two addresses.\<close>

record Sender =
  SendEmail :: "SendEmailInput \<Rightarrow> aws_error option"
  from_addr :: string
  to_addr :: string

definition SendFailureNotification :: "Sender \<Rightarrow> FailureNotification \<Rightarrow> aws_error option \<times> event list" where
  "SendFailureNotification s notif =
     (let subject = ''['' @ Project_n notif @ ''/'' @ Env_n notif @ ''] Failed Request Captured: ''
                      @ FailureID_n notif;
          input = \<lparr>Source = from_addr s, ToAddresses = [to_addr s], Subject = subject, BodyOf = notif\<rparr>
      in case SendEmail s input of
           Some err \<Rightarrow>
             (Some err,
              [SendEmailCall input,
               LogEvent ErrorLevel [ErrField err, StrField ''failureId'' (FailureID_n notif)]
                 ''failed to send email notification''])
         | None \<Rightarrow>
             (None,
              [SendEmailCall input,
               LogEvent InfoLevel [StrField ''failureId'' (FailureID_n notif), StrField ''to'' (to_addr s)]
                 ''email notification sent'']))"

section \<open>Package handlers\<close>

record Handler =
  cfg :: Config
  presigner :: Presigner
  emailer :: "Sender option"

text \<open>What \<^verbatim>\<open>writeJSON\<close> encodes, and the response it writes: a status and a JSON body.\<close>

datatype response_body =
    ErrorBody ErrorResponse
  | TicketBody UploadTicketResponse
  | CompleteBody UploadCompleteResponse

record http_response =
  status :: nat
  body :: response_body

definition writeJSON :: "nat \<Rightarrow> response_body \<Rightarrow> http_response" where
  "writeJSON st data = \<lparr>status = st, body = data\<rparr>"

definition writeError :: "nat \<Rightarrow> string \<Rightarrow> string \<Rightarrow> string \<Rightarrow> http_response" where
  "writeError st code message details =
     writeJSON st (ErrorBody \<lparr>Error = message, Code = code, Details = details\<rparr>)"

text \<open>\<^verbatim>\<open>writeValidationErrors\<close> collects the messages and then answers without them.\<close>

definition writeValidationErrors :: "ValidationError list \<Rightarrow> http_response" where
  "writeValidationErrors errs = writeError 400 ''validation_error'' ''Validation failed'' []"

text \<open>
  Sequencing of two steps that may fail and that produce events: the second step runs
  only when the first one succeeded (the \<^verbatim>\<open>if err != nil { return nil, err }\<close> of the
  source), and the events follow each other.
\<close>

definition and_then ::
  "('e + 'a) \<times> event list \<Rightarrow> ('a \<Rightarrow> ('e + 'b) \<times> event list) \<Rightarrow> ('e + 'b) \<times> event list"
where
  "and_then m f =
     (case m of
        (Inl err, evs) \<Rightarrow> (Inl err, evs)
      | (Inr x, evs) \<Rightarrow> (case f x of (r, evs') \<Rightarrow> (r, evs @ evs')))"

text \<open>The zero value of \<^verbatim>\<open>models.UploadURLs\<close>, from which \<^verbatim>\<open>generatePresignedURLs\<close> starts.\<close>

definition zero_upload :: PresignedUpload where
  "zero_upload = \<lparr>Key = [], PutURL = []\<rparr>"

definition zero_uploads :: UploadURLs where
  "zero_uploads =
     \<lparr>Envelope_u = zero_upload, RequestRaw_u = zero_upload, RequestHeaders_u = zero_upload,
      ResponseRaw_u = zero_upload, Files_u = [], Checksums_u = zero_upload\<rparr>"

text \<open>The loop over the declared files at the end of \<^verbatim>\<open>generatePresignedURLs\<close>.\<close>

fun presign_files ::
  "Handler \<Rightarrow> Builder \<Rightarrow> FileInfo list \<Rightarrow> UploadURLs \<Rightarrow> (aws_error + UploadURLs) \<times> event list"
where
  "presign_files h kb [] uploads = (Inr uploads, [])"
| "presign_files h kb (file # rest) uploads =
     (let ct = (if ContentType_f file = [] then ''application/octet-stream'' else ContentType_f file)
      in and_then (PresignPut (presigner h) (File kb (Filename file)) ct)
           (\<lambda>url. presign_files h kb rest
              (uploads\<lparr>Files_u := Files_u uploads @ [\<lparr>Key = File kb (Filename file), PutURL = url\<rparr>]\<rparr>)))"

definition generatePresignedURLs ::
  "Handler \<Rightarrow> Builder \<Rightarrow> UploadTicketRequest \<Rightarrow> (aws_error + UploadURLs) \<times> event list"
where
  "generatePresignedURLs h kb req =
     and_then (PresignPut (presigner h) (Envelope kb) ''application/json'') (\<lambda>url1.
     let uploads1 = zero_uploads\<lparr>Envelope_u := \<lparr>Key = Envelope kb, PutURL = url1\<rparr>\<rparr>;
         contentType = (if ContentType (Request req) = [] then ''application/octet-stream''
                        else ContentType (Request req))
     in
     and_then (PresignPut (presigner h) (RequestRaw kb) contentType) (\<lambda>url2.
     let uploads2 = uploads1\<lparr>RequestRaw_u := \<lparr>Key = RequestRaw kb, PutURL = url2\<rparr>\<rparr> in
     and_then (PresignPut (presigner h) (RequestHeaders kb) ''application/json'') (\<lambda>url3.
     let uploads3 = uploads2\<lparr>RequestHeaders_u := \<lparr>Key = RequestHeaders kb, PutURL = url3\<rparr>\<rparr> in
     and_then (PresignPut (presigner h) (ResponseRaw kb) ''application/octet-stream'') (\<lambda>url4.
     let uploads4 = uploads3\<lparr>ResponseRaw_u := \<lparr>Key = ResponseRaw kb, PutURL = url4\<rparr>\<rparr> in
     and_then (PresignPut (presigner h) (Checksums kb) ''application/json'') (\<lambda>url5.
     let uploads5 = uploads4\<lparr>Checksums_u := \<lparr>Key = Checksums kb, PutURL = url5\<rparr>\<rparr> in
     presign_files h kb (Files (Request req)) uploads5)))))"

text \<open>
  \<^verbatim>\<open>UploadTicket\<close>. The request body has been through the JSON decoder: \<open>Inl\<close> carries
  the decoder's error text, \<open>Inr\<close> the decoded request. \<open>newID\<close> is the string of the
  fresh UUID (\<^verbatim>\<open>uuid.New().String()\<close>) and \<open>now\<close> the reading of the clock in
  \<^verbatim>\<open>NewBuilder\<close>.
\<close>

definition UploadTicket ::
  "(string \<Rightarrow> string) \<Rightarrow> (string \<Rightarrow> string) \<Rightarrow> Handler \<Rightarrow> string \<Rightarrow> date
     \<Rightarrow> string + UploadTicketRequest \<Rightarrow> http_response \<times> event list"
where
  "UploadTicket ToUpper ToLower h newID now decoded =
     (case decoded of
        Inl err \<Rightarrow> (writeError 400 ''invalid_json'' ''Failed to parse request body'' err, [])
      | Inr req \<Rightarrow>
          (let errs = ValidateUploadTicketRequest ToUpper ToLower req (cfg h) in
           if length errs > 0 then (writeValidationErrors errs, [])
           else
             (let failureID = newID;
                  keyBuilder = NewBuilder (Project req) (Env req) failureID now;
                  evs1 = [LogEvent InfoLevel
                            [StrField ''failureId'' failureID, StrField ''project'' (Project req),
                             StrField ''env'' (Env req)]
                            ''creating upload ticket'']
              in case generatePresignedURLs h keyBuilder req of
                   (Inl err, evs2) \<Rightarrow>
                     (writeError 500 ''presign_failed'' ''Failed to generate presigned URLs'' [],
                      evs1 @ evs2)
                 | (Inr uploads, evs2) \<Rightarrow>
                     (writeJSON 200
                        (TicketBody \<lparr>FailureID = failureID, S3Prefix = Prefix keyBuilder,
                                     Uploads = uploads, ExpiresInSeconds = PresignTTL (cfg h)\<rparr>),
                      evs1 @ evs2))))"

text \<open>
  \<^verbatim>\<open>UploadComplete\<close>, on the decoded body as above; \<open>now\<close> is the reading of the clock in
  the \<^verbatim>\<open>NewBuilder\<close> that derives the envelope key.
\<close>

definition UploadComplete ::
  "Handler \<Rightarrow> date \<Rightarrow> string + UploadCompleteRequest \<Rightarrow> http_response \<times> event list"
where
  "UploadComplete h now decoded =
     (case decoded of
        Inl err \<Rightarrow> (writeError 400 ''invalid_json'' ''Failed to parse request body'' err, [])
      | Inr req \<Rightarrow>
          (let errs = ValidateUploadCompleteRequest req in
           if length errs > 0 then (writeValidationErrors errs, [])
           else
             (let evs1 = [LogEvent InfoLevel
                            [StrField ''failureId'' (FailureID_c req), StrField ''project'' (Project_c req),
                             StrField ''env'' (Env_c req),
                             IntField ''uploadedKeys'' (int (length (UploadedKeys req)))]
                            ''processing upload complete'']
              in case VerifyObjectsExist (presigner h) (UploadedKeys req) of
                   Inl err \<Rightarrow>
                     (writeError 500 ''verification_failed'' ''Failed to verify uploaded objects'' [],
                      evs1 @ [LogEvent ErrorLevel [ErrField err] ''failed to verify objects''])
                 | Inr missing \<Rightarrow>
                     if length missing > 0 then
                       (writeError 400 ''missing_objects'' ''Some objects were not found in S3'' [],
                        evs1 @ [LogEvent WarnLevel
                                  [StrField ''failureId'' (FailureID_c req), StrsField ''missing'' missing]
                                  ''missing objects in S3''])
                     else
                       (let keyBuilder = NewBuilder (Project_c req) (Env_c req) (FailureID_c req) now;
                            (envelopeURL, evs2) =
                              (case PresignGet (presigner h) (Envelope keyBuilder) of
                                 (Inl err, evs) \<Rightarrow>
                                   ([], evs @ [LogEvent ErrorLevel [ErrField err]
                                                 ''failed to generate envelope URL''])
                               | (Inr url, evs) \<Rightarrow> (url, evs));
                            evs3 =
                              (case emailer h of
                                 None \<Rightarrow> []
                               | Some sender \<Rightarrow>
                                   (let notif = \<lparr>FailureID_n = FailureID_c req, Project_n = Project_c req,
                                                 Env_n = Env_c req, Method_n = [], URL_n = [],
                                                 AppVersion_n = [], Platform_n = [],
                                                 EnvelopeURL = envelopeURL\<rparr>
                                    in case SendFailureNotification sender notif of
                                         (Some err, evs) \<Rightarrow>
                                           evs @ [LogEvent ErrorLevel [ErrField err]
                                                    ''failed to send email notification'']
                                       | (None, evs) \<Rightarrow> evs));
                            evs4 = [LogEvent InfoLevel [StrField ''failureId'' (FailureID_c req)]
                                      ''upload complete processed successfully'']
                        in (writeJSON 200 (CompleteBody \<lparr>Status = ''ok''\<rparr>),
                            evs1 @ evs2 @ evs3 @ evs4)))))"

section \<open>Notions used to state the properties\<close>

subsection \<open>Keys\<close>

text \<open>
  A path element that \<^verbatim>\<open>path.Clean\<close> keeps as it is: not empty, without a slash, and
  neither \<open>.\<close> nor \<open>..\<close>.
\<close>

definition path_elem :: "string \<Rightarrow> bool" where
  "path_elem s = (s \<noteq> [] \<and> CHR ''/'' \<notin> set s \<and> s \<noteq> ''.'' \<and> s \<noteq> ''..'')"

text \<open>Elements joined by single slashes, and a string split at its slashes.\<close>

fun join_slash :: "string list \<Rightarrow> string" where
  "join_slash [] = []"
| "join_slash [s] = s"
| "join_slash (s # t # ss) = s @ ''/'' @ join_slash (t # ss)"

primrec split_slash :: "string \<Rightarrow> string list" where
  "split_slash [] = [[]]"
| "split_slash (c # cs) =
     (if c = CHR ''/'' then [] # split_slash cs
      else (c # hd (split_slash cs)) # tl (split_slash cs))"

text \<open>
  A file name that is a clean relative path: one or more path elements separated by
  single slashes (so: not empty, no leading or trailing slash, no \<open>.\<close> or \<open>..\<close> segment).
\<close>

definition clean_filename :: "string \<Rightarrow> bool" where
  "clean_filename f = list_all path_elem (split_slash f)"

text \<open>
  A file name has no \<open>..\<close> segment. The segments of a file name that \<^verbatim>\<open>path.Clean\<close>
  keeps when there is none: all but the empty ones and the \<open>.\<close> ones.
\<close>

definition no_dotdot :: "string \<Rightarrow> bool" where
  "no_dotdot f = (''..'' \<notin> set (split_slash f))"

definition kept_segments :: "string \<Rightarrow> string list" where
  "kept_segments f = filter (\<lambda>s. s \<noteq> [] \<and> s \<noteq> ''.'') (split_slash f)"

text \<open>
  The identity of a bundle is valid when the project and the environment pass the
  validation's regular expressions and the bundle identifier is one path element (the
  string of a UUID is one).
\<close>

definition valid_identity :: "Builder \<Rightarrow> bool" where
  "valid_identity b = (projectRegex (project b) \<and> envRegex (env b) \<and> path_elem (failureID b))"

text \<open>The three fields of the formatted date, and the seven elements of the prefix.\<close>

definition date_segs :: "date \<Rightarrow> string list" where
  "date_segs t = [appendInt [] (year t) 4, appendInt [] (int (month t)) 2, appendInt [] (int (day t)) 2]"

definition prefix_segs :: "Builder \<Rightarrow> string list" where
  "prefix_segs b = [''failures'', project b, env b] @ date_segs (date b) @ [failureID b]"

text \<open>
  The key of an attachment whose file name has no \<open>..\<close> segment, in the words of the
  key layout: the prefix, \<open>files\<close>, and the kept segments of the file name, joined by
  single slashes.
\<close>

definition attachment_key :: "Builder \<Rightarrow> string \<Rightarrow> string" where
  "attachment_key b f =
     (if kept_segments f = [] then Prefix b @ ''files''
      else Prefix b @ ''files/'' @ join_slash (kept_segments f))"

text \<open>A number written on exactly two, or exactly four, decimal digits.\<close>

definition two_digits :: "nat \<Rightarrow> string" where
  "two_digits n = [digit_char (n div 10 mod 10), digit_char (n mod 10)]"

definition four_digits :: "nat \<Rightarrow> string" where
  "four_digits n =
     [digit_char (n div 1000 mod 10), digit_char (n div 100 mod 10),
      digit_char (n div 10 mod 10), digit_char (n mod 10)]"

text \<open>A civil date of the years 0 to 9999.\<close>

definition valid_date :: "date \<Rightarrow> bool" where
  "valid_date t =
     (0 \<le> year t \<and> year t \<le> 9999 \<and> 1 \<le> month t \<and> month t \<le> 12 \<and> 1 \<le> day t \<and> day t \<le> 31)"

subsection \<open>Storage, notifications and tickets\<close>

text \<open>
  What the store answers to the existence check of a key: the object is there, the
  object is not there (a clean "not found"), or the check itself failed.
\<close>

definition present :: "Handler \<Rightarrow> string \<Rightarrow> bool" where
  "present h k = (HeadObject (client (presigner h)) (bucket (presigner h)) k = None)"

definition absent :: "Handler \<Rightarrow> string \<Rightarrow> bool" where
  "absent h k = (HeadObject (client (presigner h)) (bucket (presigner h)) k = Some NotFound)"

definition check_failed :: "Handler \<Rightarrow> string \<Rightarrow> bool" where
  "check_failed h k = (\<not> present h k \<and> \<not> absent h k)"

text \<open>An event that is one invocation of the notifier's send operation.\<close>

definition is_send :: "event \<Rightarrow> bool" where
  "is_send e = (case e of SendEmailCall i \<Rightarrow> True | LogEvent l fs m \<Rightarrow> False)"

text \<open>The two fixed answers of \<^verbatim>\<open>UploadComplete\<close> after verification.\<close>

definition ok_response :: http_response where
  "ok_response = writeJSON 200 (CompleteBody \<lparr>Status = ''ok''\<rparr>)"

definition missing_objects_response :: http_response where
  "missing_objects_response =
     writeError 400 ''missing_objects'' ''Some objects were not found in S3'' []"

definition verification_failed_response :: http_response where
  "verification_failed_response =
     writeError 500 ''verification_failed'' ''Failed to verify uploaded objects'' []"

definition presign_failed_response :: http_response where
  "presign_failed_response =
     writeError 500 ''presign_failed'' ''Failed to generate presigned URLs'' []"

text \<open>
  The write authorizations a ticket request asks for, as pairs of key and content type,
  in the order of \<^verbatim>\<open>generatePresignedURLs\<close>; whether the store grants one; and the write
  authorizations that a set of upload URLs holds.
\<close>

definition file_content_type :: "FileInfo \<Rightarrow> string" where
  "file_content_type file =
     (if ContentType_f file = [] then ''application/octet-stream'' else ContentType_f file)"

definition slot_requests :: "Builder \<Rightarrow> UploadTicketRequest \<Rightarrow> (string \<times> string) list" where
  "slot_requests kb req =
     [(Envelope kb, ''application/json''),
      (RequestRaw kb, if ContentType (Request req) = [] then ''application/octet-stream''
                      else ContentType (Request req)),
      (RequestHeaders kb, ''application/json''),
      (ResponseRaw kb, ''application/octet-stream''),
      (Checksums kb, ''application/json'')]
     @ map (\<lambda>file. (File kb (Filename file), file_content_type file)) (Files (Request req))"

text \<open>
  The same requests in the order of the ticket's slots: the four required ones, the one of
  the raw response, and one per declared file.
\<close>

definition required_slots :: "Builder \<Rightarrow> UploadTicketRequest \<Rightarrow> (string \<times> string) list" where
  "required_slots kb req =
     [(Envelope kb, ''application/json''),
      (RequestRaw kb, if ContentType (Request req) = [] then ''application/octet-stream''
                      else ContentType (Request req)),
      (RequestHeaders kb, ''application/json''),
      (Checksums kb, ''application/json'')]"

definition response_slot :: "Builder \<Rightarrow> string \<times> string" where
  "response_slot kb = (ResponseRaw kb, ''application/octet-stream'')"

definition file_slots :: "Builder \<Rightarrow> UploadTicketRequest \<Rightarrow> (string \<times> string) list" where
  "file_slots kb req =
     map (\<lambda>file. (File kb (Filename file), file_content_type file)) (Files (Request req))"

definition granted :: "Handler \<Rightarrow> string \<times> string \<Rightarrow> bool" where
  "granted h kc =
     (\<not> isl (PresignPutObject (client (presigner h)) (bucket (presigner h)) (fst kc) (snd kc)
                (ttl (presigner h))))"

text \<open>
  A write authorization is the one that the store issued for a request: it holds the key
  of the request and the URL that the store answered for this key and content type.
\<close>

definition issued_by :: "Handler \<Rightarrow> PresignedUpload \<Rightarrow> string \<times> string \<Rightarrow> bool" where
  "issued_by h a kc =
     (Key a = fst kc \<and>
      PresignPutObject (client (presigner h)) (bucket (presigner h)) (fst kc) (snd kc)
        (ttl (presigner h)) = Inr (PutURL a))"

definition authorizations :: "UploadURLs \<Rightarrow> PresignedUpload list" where
  "authorizations u =
     [Envelope_u u, RequestRaw_u u, RequestHeaders_u u, Checksums_u u, ResponseRaw_u u] @ Files_u u"

text \<open>
  The upload URLs of a ticket of which the store grants every authorization: each slot
  holds its key and the URL that the store answered for it.
\<close>

definition grant_of :: "Handler \<Rightarrow> string \<times> string \<Rightarrow> PresignedUpload" where
  "grant_of h kc =
     \<lparr>Key = fst kc,
      PutURL = projr (PresignPutObject (client (presigner h)) (bucket (presigner h)) (fst kc) (snd kc)
                        (ttl (presigner h)))\<rparr>"

definition issued_uploads :: "Handler \<Rightarrow> Builder \<Rightarrow> UploadTicketRequest \<Rightarrow> UploadURLs" where
  "issued_uploads h kb req =
     \<lparr>Envelope_u = grant_of h (slot_requests kb req ! 0),
      RequestRaw_u = grant_of h (slot_requests kb req ! 1),
      RequestHeaders_u = grant_of h (slot_requests kb req ! 2),
      ResponseRaw_u = grant_of h (slot_requests kb req ! 3),
      Files_u = map (grant_of h) (drop 5 (slot_requests kb req)),
      Checksums_u = grant_of h (slot_requests kb req ! 4)\<rparr>"

subsection \<open>A concrete deployment\<close>

text \<open>
  A bucket that holds the four required objects of the bundle \<open>abc-123\<close> of project
  \<open>myapp\<close>, environment \<open>prod\<close>, created on 2024-03-15, and nothing else.
\<close>

definition ex_date :: date where
  "ex_date = \<lparr>year = 2024, month = 3, day = 15\<rparr>"

definition ex_builder :: Builder where
  "ex_builder = NewBuilder ''myapp'' ''prod'' ''abc-123'' ex_date"

definition ex_stored :: "string list" where
  "ex_stored =
     [''failures/myapp/prod/2024/03/15/abc-123/envelope.json'',
      ''failures/myapp/prod/2024/03/15/abc-123/request.raw'',
      ''failures/myapp/prod/2024/03/15/abc-123/request.headers.json'',
      ''failures/myapp/prod/2024/03/15/abc-123/checksums.json'']"

definition ex_s3 :: S3Client where
  "ex_s3 =
     \<lparr>HeadObject = (\<lambda>b k. if k \<in> set ex_stored then None else Some NotFound),
      PresignPutObject = (\<lambda>b k ct t. Inr (''https://s3.example/put/'' @ k)),
      PresignGetObject = (\<lambda>b k t. Inr (''https://s3.example/get/'' @ k))\<rparr>"

definition ex_cfg :: Config where
  "ex_cfg =
     \<lparr>BucketName = ''failure-uploads'', AWSRegion = ''us-east-1'', SESFrom = ''noreply@example.com'',
      SESTo = ''owner@example.com'', PresignTTL = 900, APIKey = [], Stage = ''dev'',
      MaxBodyBytes = 10485760, MaxFileBytes = 52428800, MaxTotalBytes = 104857600,
      AuthEnabled = False\<rparr>"

definition ex_sender :: Sender where
  "ex_sender =
     \<lparr>SendEmail = (\<lambda>input. None), from_addr = ''noreply@example.com'', to_addr = ''owner@example.com''\<rparr>"

definition ex_handler :: Handler where
  "ex_handler =
     \<lparr>cfg = ex_cfg,
      presigner = \<lparr>client = ex_s3, bucket = ''failure-uploads'', ttl = 900\<rparr>,
      emailer = Some ex_sender\<rparr>"

text \<open>The same deployment with SES refusing every message, and with no sender at all.\<close>

definition ex_handler_mail_down :: Handler where
  "ex_handler_mail_down =
     ex_handler\<lparr>emailer := Some (ex_sender\<lparr>SendEmail := (\<lambda>input. Some RequestTimeout)\<rparr>)\<rparr>"

definition ex_handler_no_mail :: Handler where
  "ex_handler_no_mail = ex_handler\<lparr>emailer := None\<rparr>"

text \<open>The same deployment with every \<^verbatim>\<open>HeadObject\<close> request refused.\<close>

definition ex_handler_denied :: Handler where
  "ex_handler_denied =
     ex_handler\<lparr>presigner :=
       \<lparr>client = ex_s3\<lparr>HeadObject := (\<lambda>b k. Some AccessDenied)\<rparr>, bucket = ''failure-uploads'', ttl = 900\<rparr>\<rparr>"

text \<open>
  A completion request of the bundle for its four keys; and one of another bundle, of
  another project and environment, that lists the same four keys.
\<close>

definition ex_complete :: UploadCompleteRequest where
  "ex_complete =
     \<lparr>FailureID_c = ''abc-123'', Project_c = ''myapp'', Env_c = ''prod'',
      UploadedKeys = ex_stored, SHA256 = Map.empty\<rparr>"

definition ex_complete_foreign :: UploadCompleteRequest where
  "ex_complete_foreign =
     \<lparr>FailureID_c = ''xyz-789'', Project_c = ''testapp'', Env_c = ''staging'',
      UploadedKeys = ex_stored, SHA256 = Map.empty\<rparr>"

text \<open>
  A ticket request with two attachments, a fresh bundle identifier, and the same
  deployment with a store that refuses the write authorization of one attachment key.
\<close>

definition ex_ticket :: UploadTicketRequest where
  "ex_ticket =
     \<lparr>Project = ''myapp'', Env = ''prod'',
      Request = \<lparr>Method = ''POST'', URL = ''https://api.example.com/v1/submit'',
                 ContentType = ''application/json'', BodyBytes = 12345,
                 Files = [\<lparr>Name = ''photo'', Filename = ''a.jpg'', ContentType_f = ''image/jpeg'',
                           Bytes = 345678\<rparr>,
                          \<lparr>Name = ''photo2'', Filename = ''a.jpg'', ContentType_f = [],
                           Bytes = 50000\<rparr>]\<rparr>,
      Client = \<lparr>AppVersion = ''1.2.3'', Platform = ''ios''\<rparr>\<rparr>"

definition ex_uuid :: string where
  "ex_uuid = ''550e8400-e29b-41d4-a716-446655440000''"

definition ex_ticket_builder :: Builder where
  "ex_ticket_builder = NewBuilder (Project ex_ticket) (Env ex_ticket) ex_uuid ex_date"

definition ex_handler_one_refusal :: Handler where
  "ex_handler_one_refusal =
     ex_handler\<lparr>presigner :=
       \<lparr>client = ex_s3\<lparr>PresignPutObject :=
                   (\<lambda>b k ct t.
                      if k = ''failures/myapp/prod/2024/03/15/550e8400-e29b-41d4-a716-446655440000/files/a.jpg''
                      then Inl AccessDenied else Inr (''https://s3.example/put/'' @ k))\<rparr>,
        bucket = ''failure-uploads'', ttl = 900\<rparr>\<rparr>"

text \<open>
  A ticket request whose single attachment is named with \<open>..\<close> segments that lead to the
  bundle \<open>xyz-789\<close> of the same project, environment and day.
\<close>

definition ex_ticket_traversal :: UploadTicketRequest where
  "ex_ticket_traversal =
     \<lparr>Project = ''myapp'', Env = ''prod'',
      Request = \<lparr>Method = ''POST'', URL = ''https://api.example.com/v1/submit'',
                 ContentType = ''application/json'', BodyBytes = 12345,
                 Files = [\<lparr>Name = ''photo'', Filename = ''../../xyz-789/envelope.json'',
                           ContentType_f = ''application/json'', Bytes = 1000\<rparr>]\<rparr>,
      Client = \<lparr>AppVersion = ''1.2.3'', Platform = ''ios''\<rparr>\<rparr>"

section \<open>Key derivation\<close>

subsection \<open>Cleaning a path made of plain elements\<close>

lemma clean_loop_Nil: "clean_loop rooted dd out [] = out"
  by (simp add: clean_loop.simps)

lemma clean_loop_slash: "clean_loop rooted dd out (CHR ''/'' # rest) = clean_loop rooted dd out rest"
  by (subst clean_loop.simps) simp

lemma takeWhile_elem:
  "CHR ''/'' \<notin> set s \<Longrightarrow> rest = [] \<or> hd rest = CHR ''/'' \<Longrightarrow>
     takeWhile (\<lambda>x. x \<noteq> CHR ''/'') (s @ rest) = s"
  by (cases rest) (auto simp: takeWhile_append takeWhile_eq_all_conv)

lemma dropWhile_elem:
  "CHR ''/'' \<notin> set s \<Longrightarrow> rest = [] \<or> hd rest = CHR ''/'' \<Longrightarrow>
     dropWhile (\<lambda>x. x \<noteq> CHR ''/'') (s @ rest) = rest"
  by (cases rest) (auto simp: dropWhile_append)

lemma clean_loop_elem:
  assumes "path_elem s" and "rest = [] \<or> hd rest = CHR ''/''"
  shows "clean_loop False dd out (s @ rest) =
           clean_loop False dd ((if out = [] then [] else out @ ''/'') @ s) rest"
proof -
  from assms(1) obtain c s' where s: "s = c # s'" and c: "c \<noteq> CHR ''/''"
    by (cases s) (auto simp: path_elem_def)
  have noslash: "CHR ''/'' \<notin> set s" using assms(1) by (simp add: path_elem_def)
  have not_dot: "\<not> (c = CHR ''.'' \<and> (s' @ rest = [] \<or> hd (s' @ rest) = CHR ''/''))"
  proof (cases s')
    case Nil
    with assms(1) s show ?thesis by (auto simp: path_elem_def)
  next
    case (Cons d s'')
    with noslash s show ?thesis by auto
  qed
  have not_dotdot: "\<not> (c = CHR ''.'' \<and> hd (s' @ rest) = CHR ''.'' \<and>
                        (tl (s' @ rest) = [] \<or> hd (tl (s' @ rest)) = CHR ''/''))"
  proof (cases s')
    case Nil
    with assms(1) s show ?thesis by (auto simp: path_elem_def)
  next
    case outer: (Cons d s'')
    show ?thesis
    proof (cases s'')
      case Nil
      with outer assms(1) s show ?thesis by (auto simp: path_elem_def)
    next
      case (Cons e s''')
      with outer noslash s show ?thesis by auto
    qed
  qed
  have tw: "takeWhile (\<lambda>x. x \<noteq> CHR ''/'') (s @ rest) = s"
    using noslash assms(2) by (rule takeWhile_elem)
  have dw: "dropWhile (\<lambda>x. x \<noteq> CHR ''/'') (s @ rest) = rest"
    using noslash assms(2) by (rule dropWhile_elem)
  have c': "(c = CHR ''/'') = False" using c by simp
  have nd: "(c = CHR ''.'' \<and> (s' @ rest = [] \<or> hd (s' @ rest) = CHR ''/'')) = False"
    using not_dot by simp
  have ndd: "(c = CHR ''.'' \<and> hd (s' @ rest) = CHR ''.'' \<and>
                (tl (s' @ rest) = [] \<or> hd (tl (s' @ rest)) = CHR ''/'')) = False"
    using not_dotdot by simp
  have "clean_loop False dd out (c # (s' @ rest)) =
          clean_loop False dd ((if out = [] then [] else out @ ''/'') @ takeWhile (\<lambda>x. x \<noteq> CHR ''/'') (c # (s' @ rest)))
            (dropWhile (\<lambda>x. x \<noteq> CHR ''/'') (c # (s' @ rest)))"
    apply (subst clean_loop.simps)
    apply (simp only: list.case c' nd ndd if_False Let_def)
    apply simp
    done
  then show ?thesis using tw dw s by simp
qed

lemma clean_loop_segs:
  assumes "list_all path_elem segs" and "segs \<noteq> []" and "rest = [] \<or> hd rest = CHR ''/''"
  shows "clean_loop False dd out (join_slash segs @ rest) =
           clean_loop False dd ((if out = [] then [] else out @ ''/'') @ join_slash segs) rest"
  using assms
proof (induction segs arbitrary: out rule: join_slash.induct)
  case 1
  then show ?case by simp
next
  case (2 s)
  then show ?case by (simp add: clean_loop_elem)
next
  case (3 s t ss)
  have "clean_loop False dd out (join_slash (s # t # ss) @ rest) =
        clean_loop False dd out (s @ (CHR ''/'' # join_slash (t # ss) @ rest))"
    by simp
  also have "\<dots> = clean_loop False dd ((if out = [] then [] else out @ ''/'') @ s)
                     (CHR ''/'' # join_slash (t # ss) @ rest)"
    using 3 by (intro clean_loop_elem) auto
  also have "\<dots> = clean_loop False dd ((if out = [] then [] else out @ ''/'') @ s)
                     (join_slash (t # ss) @ rest)"
    by (rule clean_loop_slash)
  also have "\<dots> = clean_loop False dd
       ((if (if out = [] then [] else out @ ''/'') @ s = [] then []
         else ((if out = [] then [] else out @ ''/'') @ s) @ ''/'') @ join_slash (t # ss)) rest"
    using 3 by (intro "3.IH") auto
  also have "\<dots> = clean_loop False dd ((if out = [] then [] else out @ ''/'') @ join_slash (s # t # ss)) rest"
    using 3 by (auto simp: path_elem_def)
  finally show ?case .
qed

lemma join_slash_append:
  "segs1 \<noteq> [] \<Longrightarrow> segs2 \<noteq> [] \<Longrightarrow>
     join_slash (segs1 @ segs2) = join_slash segs1 @ ''/'' @ join_slash segs2"
  by (induction segs1 rule: join_slash.induct) (auto, (cases segs2; simp)+)

lemma join_slash_nonempty: "list_all path_elem segs \<Longrightarrow> segs \<noteq> [] \<Longrightarrow> join_slash segs \<noteq> []"
  by (induction segs rule: join_slash.induct) (auto simp: path_elem_def)

lemma hd_path_elem: "path_elem s \<Longrightarrow> hd s \<noteq> CHR ''/''"
  by (cases s) (auto simp: path_elem_def)

lemma hd_join_slash: "list_all path_elem segs \<Longrightarrow> segs \<noteq> [] \<Longrightarrow> hd (join_slash segs) \<noteq> CHR ''/''"
  by (induction segs rule: join_slash.induct) (auto simp: hd_append hd_path_elem path_elem_def)

text \<open>Cleaning two groups of elements that are separated by a double slash.\<close>
lemma Clean_two_groups:
  assumes "list_all path_elem segs1" "segs1 \<noteq> []" "list_all path_elem segs2" "segs2 \<noteq> []"
  shows "Clean (join_slash segs1 @ ''//'' @ join_slash segs2) = join_slash (segs1 @ segs2)"
proof -
  let ?p = "join_slash segs1 @ ''//'' @ join_slash segs2"
  have ne: "join_slash segs1 \<noteq> []" using assms by (simp add: join_slash_nonempty)
  have hd: "hd ?p \<noteq> CHR ''/''" using assms ne by (simp add: hd_append hd_join_slash)
  have "clean_loop False 0 [] ?p = clean_loop False 0 (join_slash segs1) (''//'' @ join_slash segs2)"
    using clean_loop_segs[OF assms(1,2), of "''//'' @ join_slash segs2" 0 "[]"] by simp
  also have "\<dots> = clean_loop False 0 (join_slash segs1) (join_slash segs2 @ [])"
    by (simp add: clean_loop_slash)
  also have "\<dots> = clean_loop False 0 (join_slash segs1 @ ''/'' @ join_slash segs2) []"
    using clean_loop_segs[OF assms(3,4), of "[]" 0 "join_slash segs1"] ne by simp
  also have "\<dots> = join_slash (segs1 @ segs2)"
    using assms by (simp add: clean_loop_Nil join_slash_append)
  finally have "clean_loop False 0 [] ?p = join_slash (segs1 @ segs2)" .
  moreover have "join_slash (segs1 @ segs2) \<noteq> []"
    using assms by (simp add: join_slash_append)
  ultimately show ?thesis using hd ne by (simp add: Clean_def Let_def)
qed

subsection \<open>The formatted date\<close>

lemma digit_char_in: "d < 10 \<Longrightarrow> digit_char d \<in> set ''0123456789''"
  unfolding digit_char_def by (rule nth_mem) simp

lemma decimal_nonempty: "decimal n \<noteq> []"
  by (subst decimal.simps) simp

lemma decimal_chars: "set (decimal n) \<subseteq> set ''0123456789''"
proof -
  define D where "D = set ''0123456789''"
  have digit: "digit_char d \<in> D" if "d < 10" for d
    unfolding D_def using that by (rule digit_char_in)
  have "set (decimal n) \<subseteq> D"
  proof (induction n rule: decimal.induct)
    case (1 n)
    show ?case
    proof (cases "n < 10")
      case True
      have "decimal n = [digit_char n]" using True by (subst decimal.simps) simp
      then show ?thesis using digit[OF True] by simp
    next
      case False
      have d: "digit_char (n mod 10) \<in> D" by (rule digit) simp
      have e: "decimal n = decimal (n div 10) @ [digit_char (n mod 10)]"
        using False by (subst decimal.simps) simp
      show ?thesis unfolding e using d 1[OF False] by simp
    qed
  qed
  then show ?thesis by (simp only: D_def)
qed

lemma appendInt_append: "appendInt b x w = b @ appendInt [] x w"
  by (simp add: appendInt_def Let_def)

lemma appendInt_chars: "set (appendInt [] x w) \<subseteq> set ''-0123456789''"
proof -
  define D where "D = set ''-0123456789''"
  have "set ''0123456789'' \<subseteq> D" unfolding D_def by (simp add: subset_insertI)
  then have dec: "set (decimal (nat \<bar>x\<bar>)) \<subseteq> D"
    using decimal_chars[of "nat \<bar>x\<bar>"] by (rule order_trans[rotated])
  have zero: "CHR ''0'' \<in> D" and minus: "CHR ''-'' \<in> D" unfolding D_def by simp_all
  have "set (appendInt [] x w) \<subseteq> D"
    using dec zero minus by (auto simp: appendInt_def Let_def)
  then show ?thesis by (simp only: D_def)
qed

lemma appendInt_nonempty: "appendInt [] x w \<noteq> []"
  by (simp add: appendInt_def Let_def decimal_nonempty)

lemma appendInt_path_elem: "path_elem (appendInt [] x w)"
proof -
  have "CHR ''/'' \<notin> set ''-0123456789''" "CHR ''.'' \<notin> set ''-0123456789''" by simp_all
  then have "CHR ''/'' \<notin> set (appendInt [] x w)" "CHR ''.'' \<notin> set (appendInt [] x w)"
    using appendInt_chars[of x w] by blast+
  moreover from this(2) have "appendInt [] x w \<noteq> ''.''" "appendInt [] x w \<noteq> ''..''"
    by auto
  ultimately show ?thesis using appendInt_nonempty by (simp add: path_elem_def)
qed

lemma Format_segs: "Format_2006_01_02 t = join_slash (date_segs t)"
  unfolding Format_2006_01_02_def date_segs_def
  by (subst appendInt_append, subst (2) appendInt_append) simp

lemma decimal_1: "n < 10 \<Longrightarrow> decimal n = [digit_char n]"
  by (subst decimal.simps) simp

lemma decimal_step: "10 \<le> n \<Longrightarrow> decimal n = decimal (n div 10) @ [digit_char (n mod 10)]"
  by (subst decimal.simps) simp

lemma digit_char_0: "digit_char 0 = CHR ''0''"
  by (simp add: digit_char_def)

lemma decimal_2: "10 \<le> n \<Longrightarrow> n < 100 \<Longrightarrow> decimal n = [digit_char (n div 10), digit_char (n mod 10)]"
  by (simp add: decimal_step decimal_1)

lemma decimal_3:
  assumes "100 \<le> n" "n < 1000"
  shows "decimal n = [digit_char (n div 100), digit_char (n div 10 mod 10), digit_char (n mod 10)]"
proof -
  have a: "10 \<le> n div 10" "n div 10 < 100" using assms by simp_all
  have b: "n div 10 div 10 = n div 100" by (simp add: div_mult2_eq[symmetric])
  have "decimal n = decimal (n div 10) @ [digit_char (n mod 10)]"
    using assms by (intro decimal_step) simp
  also have "decimal (n div 10) = [digit_char (n div 10 div 10), digit_char (n div 10 mod 10)]"
    using a by (rule decimal_2)
  finally show ?thesis by (simp only: b append.simps)
qed

lemma decimal_4:
  assumes "1000 \<le> n" "n < 10000"
  shows "decimal n = [digit_char (n div 1000), digit_char (n div 100 mod 10),
                  digit_char (n div 10 mod 10), digit_char (n mod 10)]"
proof -
  have a: "100 \<le> n div 10" "n div 10 < 1000" using assms by simp_all
  have b: "n div 10 div 100 = n div 1000" "n div 10 div 10 = n div 100"
    by (simp_all add: div_mult2_eq[symmetric])
  have "decimal n = decimal (n div 10) @ [digit_char (n mod 10)]"
    using assms by (intro decimal_step) simp
  also have "decimal (n div 10) =
      [digit_char (n div 10 div 100), digit_char (n div 10 div 10 mod 10), digit_char (n div 10 mod 10)]"
    using a by (rule decimal_3)
  finally show ?thesis by (simp only: b append.simps)
qed

lemma appendInt_nat: "appendInt [] (int n) w = replicate (w - length (decimal n)) CHR ''0'' @ decimal n"
  by (simp add: appendInt_def Let_def)

lemma appendInt_two_digits: "n < 100 \<Longrightarrow> appendInt [] (int n) 2 = two_digits n"
proof -
  assume n: "n < 100"
  consider "n < 10" | "10 \<le> n" by linarith
  then show ?thesis
  proof cases
    case 1
    then show ?thesis
      by (simp add: appendInt_def Let_def decimal_1 two_digits_def digit_char_0)
  next
    case 2
    with n show ?thesis
      by (simp add: appendInt_def Let_def decimal_2 two_digits_def)
  qed
qed

lemma appendInt_four_digits: 
  assumes n: "n < 10000"
  shows "appendInt [] (int n) 4 = four_digits n"
proof -
  have r: "replicate 3 CHR ''0'' = ''000''" "replicate 2 CHR ''0'' = ''00''"
    "replicate 1 CHR ''0'' = ''0''" "replicate 0 CHR ''0'' = []"
    by (simp_all add: numeral_3_eq_3 numeral_2_eq_2)
  consider "n < 10" | "10 \<le> n \<and> n < 100" | "100 \<le> n \<and> n < 1000" | "1000 \<le> n" by linarith
  then show ?thesis
  proof cases
    case 1
    then have d: "n div 1000 = 0" "n div 100 = 0" "n div 10 = 0" by simp_all
    have l: "4 - length (decimal n) = 3" using 1 by (simp add: decimal_1)
    show ?thesis unfolding appendInt_nat l r four_digits_def d
      using 1 by (simp add: decimal_1 digit_char_0)
  next
    case 2
    then have "n div 10 < 10" by arith
    with 2 have d: "n div 1000 = 0" "n div 100 = 0" "n div 10 mod 10 = n div 10" by simp_all
    have l: "4 - length (decimal n) = 2" using 2 by (simp add: decimal_2)
    show ?thesis unfolding appendInt_nat l r four_digits_def d
      using 2 by (simp add: decimal_2 digit_char_0)
  next
    case 3
    then have "n div 100 < 10" by arith
    with 3 have d: "n div 1000 = 0" "n div 100 mod 10 = n div 100" by simp_all
    have l: "4 - length (decimal n) = 1" using 3 by (simp add: decimal_3)
    show ?thesis unfolding appendInt_nat l r four_digits_def d
      using 3 by (simp add: decimal_3 digit_char_0)
  next
    case 4
    have "n div 1000 < 10" using n by arith
    then have d: "n div 1000 mod 10 = n div 1000" by simp
    have l: "4 - length (decimal n) = 0" using 4 n by (simp add: decimal_4)
    show ?thesis unfolding appendInt_nat l r four_digits_def d
      using 4 n by (simp add: decimal_4)
  qed
qed

subsection \<open>The keys of a valid identity\<close>

lemma Prefix_segs: "Prefix b = join_slash (prefix_segs b) @ ''/''"
  by (simp add: Prefix_def prefix_segs_def Format_segs date_segs_def)

lemma word_class_path_elem:
  assumes "s \<noteq> []" "list_all (\<lambda>c. c \<in> set word_class) s"
  shows "path_elem s"
proof -
  have wc: "CHR ''/'' \<notin> set word_class" "CHR ''.'' \<notin> set word_class"
    by (simp_all add: word_class_def)
  have sub: "set s \<subseteq> set word_class"
    using assms(2) by (simp add: list_all_iff subset_iff)
  have "CHR ''/'' \<notin> set s" "CHR ''.'' \<notin> set s"
    using wc sub by blast+
  moreover from this(2) have "s \<noteq> ''.''" "s \<noteq> ''..''" by auto
  ultimately show ?thesis using assms(1) by (simp add: path_elem_def)
qed

lemma projectRegex_path_elem: "projectRegex s \<Longrightarrow> path_elem s"
  by (rule word_class_path_elem) (auto simp: projectRegex_def)

lemma envRegex_path_elem: "envRegex s \<Longrightarrow> path_elem s"
  by (rule word_class_path_elem) (auto simp: envRegex_def)

lemma path_elem_literals:
  "path_elem ''failures''" "path_elem ''files''" "path_elem ''envelope.json''"
  "path_elem ''request.raw''" "path_elem ''request.headers.json''" "path_elem ''response.raw''"
  "path_elem ''checksums.json''"
  by (simp_all add: path_elem_def)

lemma prefix_segs_ok: "valid_identity b \<Longrightarrow> list_all path_elem (prefix_segs b)"
  by (simp add: valid_identity_def prefix_segs_def date_segs_def appendInt_path_elem
      projectRegex_path_elem envRegex_path_elem path_elem_literals)

lemma prefix_segs_nonempty: "prefix_segs b \<noteq> []"
  by (simp add: prefix_segs_def)

lemma Join_two:
  assumes "valid_identity b" "list_all path_elem segs" "segs \<noteq> []"
  shows "Join [Prefix b, join_slash segs] = Prefix b @ join_slash segs"
proof -
  have ne: "join_slash segs \<noteq> []" using assms by (simp add: join_slash_nonempty)
  have "Join [Prefix b, join_slash segs] = Clean (join_slash (prefix_segs b) @ ''//'' @ join_slash segs)"
    using ne by (simp add: Join_def join_step_def Prefix_segs)
  also have "\<dots> = join_slash (prefix_segs b @ segs)"
    using assms prefix_segs_ok prefix_segs_nonempty by (intro Clean_two_groups) simp_all
  also have "\<dots> = Prefix b @ join_slash segs"
    using assms prefix_segs_nonempty by (simp add: join_slash_append Prefix_segs)
  finally show ?thesis .
qed

lemma Join_three:
  assumes "valid_identity b" "list_all path_elem segs" "segs \<noteq> []"
  shows "Join [Prefix b, ''files'', join_slash segs] = Prefix b @ ''files/'' @ join_slash segs"
proof -
  have ne: "join_slash segs \<noteq> []" using assms by (simp add: join_slash_nonempty)
  have f: "join_slash (''files'' # segs) = ''files/'' @ join_slash segs"
    using assms(3) by (cases segs) auto
  have "Join [Prefix b, ''files'', join_slash segs] =
          Clean (join_slash (prefix_segs b) @ ''//'' @ join_slash (''files'' # segs))"
    using ne by (simp add: Join_def join_step_def Prefix_segs f)
  also have "\<dots> = join_slash (prefix_segs b @ (''files'' # segs))"
    using assms prefix_segs_ok prefix_segs_nonempty
    by (intro Clean_two_groups) (simp_all add: path_elem_literals)
  also have "\<dots> = Prefix b @ ''files/'' @ join_slash segs"
    using prefix_segs_nonempty by (simp add: join_slash_append Prefix_segs f)
  finally show ?thesis .
qed

lemma fixed_keys:
  assumes "valid_identity b"
  shows "Envelope b = Prefix b @ ''envelope.json''"
    and "RequestRaw b = Prefix b @ ''request.raw''"
    and "RequestHeaders b = Prefix b @ ''request.headers.json''"
    and "ResponseRaw b = Prefix b @ ''response.raw''"
    and "Checksums b = Prefix b @ ''checksums.json''"
proof -
  show "Envelope b = Prefix b @ ''envelope.json''"
    using Join_two[OF assms, of "[''envelope.json'']"] by (simp add: Envelope_def path_elem_literals)
  show "RequestRaw b = Prefix b @ ''request.raw''"
    using Join_two[OF assms, of "[''request.raw'']"] by (simp add: RequestRaw_def path_elem_literals)
  show "RequestHeaders b = Prefix b @ ''request.headers.json''"
    using Join_two[OF assms, of "[''request.headers.json'']"]
    by (simp add: RequestHeaders_def path_elem_literals)
  show "ResponseRaw b = Prefix b @ ''response.raw''"
    using Join_two[OF assms, of "[''response.raw'']"] by (simp add: ResponseRaw_def path_elem_literals)
  show "Checksums b = Prefix b @ ''checksums.json''"
    using Join_two[OF assms, of "[''checksums.json'']"] by (simp add: Checksums_def path_elem_literals)
qed

lemma File_clean:
  assumes "valid_identity b" "list_all path_elem segs" "segs \<noteq> []"
  shows "File b (join_slash segs) = Prefix b @ ''files/'' @ join_slash segs"
  using Join_three[OF assms] by (simp add: File_def)

subsection \<open>Clean file names\<close>

lemma split_slash_nonempty: "split_slash s \<noteq> []"
  by (induction s) auto

lemma join_slash_Cons_char: "join_slash ((c # x) # xs) = c # join_slash (x # xs)"
  by (cases xs) auto

lemma join_split: "join_slash (split_slash s) = s"
proof (induction s)
  case Nil
  then show ?case by simp
next
  case (Cons c cs)
  obtain x xs where sp: "split_slash cs = x # xs"
    using split_slash_nonempty[of cs] by (cases "split_slash cs") auto
  show ?case
  proof (cases "c = CHR ''/''")
    case True
    then show ?thesis using Cons sp by simp
  next
    case False
    then show ?thesis using Cons sp by (simp add: join_slash_Cons_char)
  qed
qed

lemma File_clean_filename:
  assumes "valid_identity b" "clean_filename f"
  shows "File b f = Prefix b @ ''files/'' @ f"
  using File_clean[OF assms(1), of "split_slash f"] assms(2)
  by (simp add: clean_filename_def split_slash_nonempty join_split)

subsection \<open>File names with empty and dot segments\<close>

text \<open>The buffer after a list of kept elements has been written to it.\<close>

lemma clean_loop_dot_end: "clean_loop rooted dd out ''.'' = out"
  by (subst clean_loop.simps) (simp add: clean_loop_Nil)

lemma clean_loop_dot_slash:
  "clean_loop rooted dd out (CHR ''.'' # CHR ''/'' # rest) = clean_loop rooted dd out rest"
  by (subst clean_loop.simps) (simp add: clean_loop_slash)

lemma slash_free_cases:
  assumes "CHR ''/'' \<notin> set s" and "s \<noteq> ''..''"
  shows "s = [] \<or> s = ''.'' \<or> path_elem s"
  using assms by (auto simp: path_elem_def)

lemma clean_loop_free_segs:
  assumes "\<forall>s \<in> set segs. CHR ''/'' \<notin> set s" and "''..'' \<notin> set segs" and "segs \<noteq> []"
  shows "clean_loop False dd out (join_slash segs) =
           foldl (\<lambda>buf s. (if buf = [] then [] else buf @ ''/'') @ s) out
             (filter (\<lambda>s. s \<noteq> [] \<and> s \<noteq> ''.'') segs)"
  using assms
proof (induction segs arbitrary: out rule: join_slash.induct)
  case 1
  then show ?case by simp
next
  case (2 s)
  then have "s = [] \<or> s = ''.'' \<or> path_elem s" by (intro slash_free_cases) auto
  then show ?case
  proof (elim disjE)
    assume "s = []"
    then show ?thesis by (simp add: clean_loop_Nil)
  next
    assume "s = ''.''"
    then show ?thesis by (simp add: clean_loop_dot_end)
  next
    assume p: "path_elem s"
    then have "s \<noteq> []" "s \<noteq> ''.''" by (auto simp: path_elem_def)
    moreover have "clean_loop False dd out (s @ []) =
        clean_loop False dd ((if out = [] then [] else out @ ''/'') @ s) []"
      using clean_loop_elem[OF p, of "[]" dd out] by simp
    ultimately show ?thesis by (simp add: clean_loop_Nil)
  qed
next
  case (3 s t ss)
  have rest: "\<forall>s \<in> set (t # ss). CHR ''/'' \<notin> set s" "''..'' \<notin> set (t # ss)" "t # ss \<noteq> []"
    using "3.prems" by auto
  note IH = "3.IH"[OF rest]
  have "s = [] \<or> s = ''.'' \<or> path_elem s" using "3.prems" by (intro slash_free_cases) auto
  then show ?case
  proof (elim disjE)
    assume "s = []"
    then show ?thesis using IH[of out] by (simp add: clean_loop_slash)
  next
    assume "s = ''.''"
    then show ?thesis using IH[of out] by (simp add: clean_loop_dot_slash)
  next
    assume p: "path_elem s"
    then have ne: "s \<noteq> []" "s \<noteq> ''.''" by (auto simp: path_elem_def)
    have "clean_loop False dd out (join_slash (s # t # ss)) =
          clean_loop False dd out (s @ (CHR ''/'' # join_slash (t # ss)))"
      by simp
    also have "\<dots> = clean_loop False dd ((if out = [] then [] else out @ ''/'') @ s)
                       (CHR ''/'' # join_slash (t # ss))"
      using clean_loop_elem[OF p, of "CHR ''/'' # join_slash (t # ss)" dd out] by simp
    also have "\<dots> = clean_loop False dd ((if out = [] then [] else out @ ''/'') @ s)
                       (join_slash (t # ss))"
      by (rule clean_loop_slash)
    also have "\<dots> = foldl (\<lambda>buf s. (if buf = [] then [] else buf @ ''/'') @ s)
                        ((if out = [] then [] else out @ ''/'') @ s)
                        (filter (\<lambda>s. s \<noteq> [] \<and> s \<noteq> ''.'') (t # ss))"
      by (rule IH)
    finally show ?thesis using ne by simp
  qed
qed

lemma foldl_join_nonempty:
  assumes "\<forall>s \<in> set segs. s \<noteq> []" and "out \<noteq> []"
  shows "foldl (\<lambda>buf s. (if buf = [] then [] else buf @ ''/'') @ s) out segs =
           (if segs = [] then out else out @ ''/'' @ join_slash segs)"
  using assms
proof (induction segs arbitrary: out)
  case Nil
  then show ?case by simp
next
  case (Cons s segs)
  have "(out @ ''/'') @ s \<noteq> []" by simp
  from Cons.IH[OF _ this] Cons.prems show ?case
    by (cases segs) simp_all
qed

lemma split_slash_free: "\<forall>s \<in> set (split_slash f). CHR ''/'' \<notin> set s"
proof (induction f)
  case Nil
  then show ?case by simp
next
  case (Cons c cs)
  obtain x xs where sp: "split_slash cs = x # xs"
    using split_slash_nonempty[of cs] by (cases "split_slash cs") auto
  with Cons show ?case by auto
qed

lemma join_slash_empty_files_name:
  "segs \<noteq> [] \<Longrightarrow> fs \<noteq> [] \<Longrightarrow>
     join_slash (segs @ [[], ''files''] @ fs) = join_slash segs @ ''//files/'' @ join_slash fs"
  using join_slash_append[of segs "[[], ''files''] @ fs"] join_slash_append[of "[[], ''files'']" fs]
  by simp

lemma File_without_dotdot:
  assumes "valid_identity b" and "no_dotdot f"
  shows "File b f = attachment_key b f"
proof -
  let ?pre = "prefix_segs b"
  let ?fs = "split_slash f"
  let ?segs = "?pre @ [[], ''files''] @ ?fs"
  have pre_ok: "list_all path_elem ?pre" using assms(1) by (rule prefix_segs_ok)
  have pre_ne: "?pre \<noteq> []" by (rule prefix_segs_nonempty)
  have buf: "foldl join_step [] [Prefix b, ''files'', f] = join_slash ?segs"
    using join_slash_empty_files_name[OF pre_ne split_slash_nonempty, of f]
    by (simp add: join_step_def Prefix_segs join_split)
  have free: "\<forall>s \<in> set ?segs. CHR ''/'' \<notin> set s"
    using pre_ok split_slash_free[of f] by (auto simp: list_all_iff path_elem_def)
  have nodd: "''..'' \<notin> set ?segs"
    using pre_ok assms(2) by (auto simp: list_all_iff path_elem_def no_dotdot_def)
  have kept_pre: "filter (\<lambda>s. s \<noteq> [] \<and> s \<noteq> ''.'') ?pre = ?pre"
    using pre_ok by (auto simp: list_all_iff path_elem_def filter_id_conv)
  have kept_f: "filter (\<lambda>s. s \<noteq> [] \<and> s \<noteq> ''.'') ?fs = kept_segments f"
    by (simp add: kept_segments_def)
  have kept: "filter (\<lambda>s. s \<noteq> [] \<and> s \<noteq> ''.'') ?segs = ?pre @ ''files'' # kept_segments f"
    using kept_pre kept_f by simp
  have ne_all: "\<forall>s \<in> set (?pre @ ''files'' # kept_segments f). s \<noteq> []"
    using pre_ok by (auto simp: list_all_iff path_elem_def kept_segments_def)
  obtain p ps where pp: "?pre = p # ps" using pre_ne by (cases ?pre) auto
  have p_ne: "p \<noteq> []" using pre_ok pp by (simp add: path_elem_def)
  have segs_ne: "?segs \<noteq> []" by simp
  have "clean_loop False 0 [] (join_slash ?segs) =
          foldl (\<lambda>buf s. (if buf = [] then [] else buf @ ''/'') @ s) []
            (filter (\<lambda>s. s \<noteq> [] \<and> s \<noteq> ''.'') ?segs)"
    by (rule clean_loop_free_segs[OF free nodd segs_ne])
  also have "\<dots> = foldl (\<lambda>buf s. (if buf = [] then [] else buf @ ''/'') @ s) []
            (?pre @ ''files'' # kept_segments f)"
    by (simp only: kept)
  also have "\<dots> = foldl (\<lambda>buf s. (if buf = [] then [] else buf @ ''/'') @ s) p
            (ps @ ''files'' # kept_segments f)"
    by (simp add: pp)
  also have "\<dots> = p @ ''/'' @ join_slash (ps @ ''files'' # kept_segments f)"
    using foldl_join_nonempty[of "ps @ ''files'' # kept_segments f" p] ne_all p_ne pp by simp
  also have "\<dots> = join_slash (?pre @ ''files'' # kept_segments f)"
    by (cases ps) (simp_all add: pp)
  also have "\<dots> = attachment_key b f"
    using join_slash_append[OF pre_ne, of "''files'' # kept_segments f"]
    by (cases "kept_segments f") (simp_all add: attachment_key_def Prefix_segs)
  finally have cl: "clean_loop False 0 [] (join_slash ?segs) = attachment_key b f" .
  have hd: "hd (join_slash ?segs) \<noteq> CHR ''/''"
    using pp p_ne hd_path_elem[of p] pre_ok by (cases ps) (simp_all add: hd_append)
  have ne: "join_slash ?segs \<noteq> []"
    using pp p_ne by (cases ps) simp_all
  have ak: "attachment_key b f \<noteq> []" by (simp add: attachment_key_def Prefix_def)
  have "Clean (join_slash ?segs) = attachment_key b f"
    using hd ne cl ak by (simp add: Clean_def Let_def)
  then show ?thesis unfolding File_def Join_def buf by simp
qed

lemma clean_filename_no_dotdot: "clean_filename f \<Longrightarrow> no_dotdot f"
  by (auto simp: clean_filename_def no_dotdot_def list_all_iff path_elem_def)

lemma clean_filename_kept: "clean_filename f \<Longrightarrow> kept_segments f = split_slash f"
  by (auto simp: clean_filename_def kept_segments_def list_all_iff path_elem_def filter_id_conv)

lemma attachment_key_clean:
  "clean_filename f \<Longrightarrow> attachment_key b f = Prefix b @ ''files/'' @ f"
  using split_slash_nonempty[of f] by (simp add: attachment_key_def clean_filename_kept join_split)

lemma attachment_key_under_prefix: "prefix (Prefix b) (attachment_key b f)"
  by (simp add: attachment_key_def)

section \<open>Ticket issuance\<close>

subsection \<open>Sequencing\<close>

lemma and_then_Inl: "m = (Inl err, evs) \<Longrightarrow> and_then m f = (Inl err, evs)"
  by (simp add: and_then_def)

lemma and_then_Inr: "m = (Inr x, evs) \<Longrightarrow> and_then m f = (fst (f x), evs @ snd (f x))"
  by (simp add: and_then_def split: prod.splits)

lemma PresignPut_granted:
  "granted h (k, ct) \<Longrightarrow> PresignPut (presigner h) k ct = (Inr (PutURL (grant_of h (k, ct))), [])"
  by (cases "PresignPutObject (client (presigner h)) (bucket (presigner h)) k ct (ttl (presigner h))")
    (simp_all add: granted_def PresignPut_def grant_of_def)

lemma PresignPut_refused:
  "\<not> granted h (k, ct) \<Longrightarrow> \<exists>err evs. PresignPut (presigner h) k ct = (Inl err, evs)"
  by (cases "PresignPutObject (client (presigner h)) (bucket (presigner h)) k ct (ttl (presigner h))")
    (simp_all add: granted_def PresignPut_def)

subsection \<open>The loop over the files\<close>

lemma presign_files_granted:
  "list_all (granted h) (map (\<lambda>file. (File kb (Filename file), file_content_type file)) files) \<Longrightarrow>
     presign_files h kb files u =
       (Inr (u\<lparr>Files_u := Files_u u
                  @ map (\<lambda>file. grant_of h (File kb (Filename file), file_content_type file)) files\<rparr>), [])"
proof (induction files arbitrary: u)
  case Nil
  then show ?case by simp
next
  case (Cons f0 rest)
  let ?kc = "(File kb (Filename f0), file_content_type f0)"
  have g: "granted h ?kc" using Cons.prems by simp
  have key: "\<lparr>Key = File kb (Filename f0), PutURL = PutURL (grant_of h ?kc)\<rparr> = grant_of h ?kc"
    by (simp add: grant_of_def)
  have rest: "list_all (granted h) (map (\<lambda>file. (File kb (Filename file), file_content_type file)) rest)"
    using Cons.prems by simp
  show ?case
    using PresignPut_granted[OF g] Cons.IH[OF rest]
    by (simp add: and_then_def key file_content_type_def[symmetric] Let_def)
qed

lemma presign_files_refused:
  "\<not> list_all (granted h) (map (\<lambda>file. (File kb (Filename file), file_content_type file)) files) \<Longrightarrow>
     \<exists>err evs. presign_files h kb files u = (Inl err, evs)"
proof (induction files arbitrary: u)
  case Nil
  then show ?case by simp
next
  case (Cons f0 rest)
  let ?kc = "(File kb (Filename f0), file_content_type f0)"
  show ?case
  proof (cases "granted h ?kc")
    case True
    then have "\<not> list_all (granted h) (map (\<lambda>file. (File kb (Filename file), file_content_type file)) rest)"
      using Cons.prems by simp
    from Cons.IH[OF this] PresignPut_granted[OF True] show ?thesis
      by (simp add: and_then_def file_content_type_def[symmetric] Let_def split: prod.splits)
  next
    case False
    from PresignPut_refused[OF this] show ?thesis
      by (auto simp: and_then_def file_content_type_def[symmetric] Let_def)
  qed
qed

subsection \<open>All the slots\<close>

lemma and_then_PresignPut:
  "and_then (PresignPut (presigner h) k ct) f =
     (if granted h (k, ct) then f (PutURL (grant_of h (k, ct)))
      else (Inl (projl (PresignPutObject (client (presigner h)) (bucket (presigner h)) k ct
                          (ttl (presigner h)))),
            [LogEvent ErrorLevel
               [ErrField (projl (PresignPutObject (client (presigner h)) (bucket (presigner h)) k ct
                                   (ttl (presigner h)))),
                StrField ''key'' k]
               ''failed to presign PUT URL'']))"
  by (cases "PresignPutObject (client (presigner h)) (bucket (presigner h)) k ct (ttl (presigner h))")
    (simp_all add: and_then_def PresignPut_def granted_def grant_of_def split: prod.splits)

lemma grant_of_eq: "\<lparr>Key = k, PutURL = PutURL (grant_of h (k, ct))\<rparr> = grant_of h (k, ct)"
  by (simp add: grant_of_def)

lemma generatePresignedURLs_granted:
  assumes "list_all (granted h) (slot_requests kb req)"
  shows "generatePresignedURLs h kb req = (Inr (issued_uploads h kb req), [])"
proof -
  have files: "list_all (granted h)
      (map (\<lambda>file. (File kb (Filename file), file_content_type file)) (Files (Request req)))"
    using assms by (simp add: slot_requests_def)
  have five: "granted h (Envelope kb, ''application/json'')"
    "granted h (RequestRaw kb, if ContentType (Request req) = [] then ''application/octet-stream''
                               else ContentType (Request req))"
    "granted h (RequestHeaders kb, ''application/json'')"
    "granted h (ResponseRaw kb, ''application/octet-stream'')"
    "granted h (Checksums kb, ''application/json'')"
    using assms by (simp_all add: slot_requests_def)
  show ?thesis
    unfolding generatePresignedURLs_def Let_def and_then_PresignPut
    using five
    by (simp add: presign_files_granted[OF files] grant_of_eq issued_uploads_def slot_requests_def
        zero_uploads_def)
qed

lemma generatePresignedURLs_refused:
  assumes "\<not> list_all (granted h) (slot_requests kb req)"
  shows "\<exists>err evs. generatePresignedURLs h kb req = (Inl err, evs)"
proof (cases "list_all (granted h)
      (map (\<lambda>file. (File kb (Filename file), file_content_type file)) (Files (Request req)))")
  case True
  with assms show ?thesis
    unfolding generatePresignedURLs_def Let_def and_then_PresignPut
    by (auto simp: slot_requests_def)
next
  case False
  from presign_files_refused[OF this] show ?thesis
    unfolding generatePresignedURLs_def Let_def and_then_PresignPut
    by (auto simp: slot_requests_def)
qed

subsection \<open>The answer to a valid ticket request\<close>

lemma UploadTicket_granted:
  assumes "ValidateUploadTicketRequest ToUpper ToLower req (cfg h) = []"
    and "list_all (granted h) (slot_requests (NewBuilder (Project req) (Env req) newID now) req)"
  shows "UploadTicket ToUpper ToLower h newID now (Inr req) =
     (writeJSON 200
        (TicketBody \<lparr>FailureID = newID,
                     S3Prefix = Prefix (NewBuilder (Project req) (Env req) newID now),
                     Uploads = issued_uploads h (NewBuilder (Project req) (Env req) newID now) req,
                     ExpiresInSeconds = PresignTTL (cfg h)\<rparr>),
      [LogEvent InfoLevel
         [StrField ''failureId'' newID, StrField ''project'' (Project req), StrField ''env'' (Env req)]
         ''creating upload ticket''])"
  using assms by (simp add: UploadTicket_def Let_def generatePresignedURLs_granted)

lemma UploadTicket_refused:
  assumes "ValidateUploadTicketRequest ToUpper ToLower req (cfg h) = []"
    and "\<not> list_all (granted h) (slot_requests (NewBuilder (Project req) (Env req) newID now) req)"
  shows "fst (UploadTicket ToUpper ToLower h newID now (Inr req)) = presign_failed_response"
proof -
  from generatePresignedURLs_refused[OF assms(2)] obtain err evs where
    "generatePresignedURLs h (NewBuilder (Project req) (Env req) newID now) req = (Inl err, evs)"
    by blast
  with assms(1) show ?thesis
    by (simp add: UploadTicket_def Let_def presign_failed_response_def)
qed

lemma UploadTicket_invalid:
  assumes "ValidateUploadTicketRequest ToUpper ToLower req (cfg h) \<noteq> []"
  shows "UploadTicket ToUpper ToLower h newID now (Inr req) =
           (writeError 400 ''validation_error'' ''Validation failed'' [], [])"
  using assms by (simp add: UploadTicket_def Let_def writeValidationErrors_def)

lemma foldl_append_keys: "foldl (\<lambda>keys f. keys @ [g f]) acc fs = acc @ map g fs"
  by (induction fs arbitrary: acc) simp_all

lemma AllKeys_eq: "AllKeys b fs = RequiredKeys b @ [ResponseRaw b] @ map (File b) fs"
  by (simp add: AllKeys_def foldl_append_keys)

lemma authorizations_issued:
  "map Key (authorizations (issued_uploads h kb req)) = AllKeys kb (map Filename (Files (Request req)))"
  by (simp add: authorizations_def issued_uploads_def slot_requests_def grant_of_def comp_def
      AllKeys_eq RequiredKeys_def)

lemma length_authorizations_issued:
  "length (authorizations (issued_uploads h kb req)) = 4 + 1 + length (Files (Request req))"
  by (simp add: authorizations_def issued_uploads_def slot_requests_def)

section \<open>Properties of the key derivation\<close>

subsection \<open>Prefixes of distinct bundles\<close>

lemma takeWhile_seg:
  "CHR ''/'' \<notin> set a \<Longrightarrow> takeWhile (\<lambda>x. x \<noteq> CHR ''/'') (a @ CHR ''/'' # r) = a"
  by (simp add: takeWhile_append takeWhile_eq_all_conv)

lemma dropWhile_seg:
  "CHR ''/'' \<notin> set a \<Longrightarrow> dropWhile (\<lambda>x. x \<noteq> CHR ''/'') (a @ CHR ''/'' # r) = CHR ''/'' # r"
  by (simp add: dropWhile_append)

lemma seg_cancel:
  assumes "CHR ''/'' \<notin> set a" and "CHR ''/'' \<notin> set b" and "a @ CHR ''/'' # r1 = b @ CHR ''/'' # r2"
  shows "a = b \<and> r1 = r2"
proof -
  have "takeWhile (\<lambda>x. x \<noteq> CHR ''/'') (a @ CHR ''/'' # r1) =
        takeWhile (\<lambda>x. x \<noteq> CHR ''/'') (b @ CHR ''/'' # r2)"
    using assms(3) by simp
  then have "a = b"
    unfolding takeWhile_seg[OF assms(1)] takeWhile_seg[OF assms(2)] .
  with assms(3) show ?thesis by simp
qed

lemma path_elem_no_slash: "path_elem s \<Longrightarrow> CHR ''/'' \<notin> set s"
  by (simp add: path_elem_def)

lemma Prefix_parts:
  "Prefix b = ''failures'' @ CHR ''/'' # project b @ CHR ''/'' # env b @ CHR ''/'' #
     appendInt [] (year (date b)) 4 @ CHR ''/'' # appendInt [] (int (month (date b))) 2 @ CHR ''/'' #
     appendInt [] (int (day (date b))) 2 @ CHR ''/'' # failureID b @ ''/''"
  by (simp add: Prefix_segs prefix_segs_def date_segs_def)

lemma prefix_same_id:
  assumes "valid_identity b1" and "valid_identity b2" and "prefix (Prefix b1) (Prefix b2)"
  shows "failureID b1 = failureID b2"
proof -
  from assms(3) obtain z where z: "Prefix b2 = Prefix b1 @ z" by (auto simp: prefix_def)
  have ns: "CHR ''/'' \<notin> set (project b1)" "CHR ''/'' \<notin> set (project b2)"
    "CHR ''/'' \<notin> set (env b1)" "CHR ''/'' \<notin> set (env b2)"
    "CHR ''/'' \<notin> set (failureID b1)" "CHR ''/'' \<notin> set (failureID b2)"
    using assms(1,2)
    by (simp_all add: valid_identity_def path_elem_no_slash projectRegex_path_elem envRegex_path_elem)
  have nd: "CHR ''/'' \<notin> set (appendInt [] x w)" for x w
    using appendInt_path_elem[of x w] by (rule path_elem_no_slash)
  let ?r = "\<lambda>b t. env b @ CHR ''/'' # appendInt [] (year (date b)) 4 @ CHR ''/'' #
     appendInt [] (int (month (date b))) 2 @ CHR ''/'' # appendInt [] (int (day (date b))) 2 @ CHR ''/'' #
     failureID b @ CHR ''/'' # t"
  from z have "project b2 @ CHR ''/'' # ?r b2 [] = project b1 @ CHR ''/'' # ?r b1 z"
    by (simp add: Prefix_parts)
  from seg_cancel[OF ns(2) ns(1) this]
  have "env b2 @ CHR ''/'' # appendInt [] (year (date b2)) 4 @ CHR ''/'' #
          appendInt [] (int (month (date b2))) 2 @ CHR ''/'' # appendInt [] (int (day (date b2))) 2 @
          CHR ''/'' # failureID b2 @ CHR ''/'' # [] =
        env b1 @ CHR ''/'' # appendInt [] (year (date b1)) 4 @ CHR ''/'' #
          appendInt [] (int (month (date b1))) 2 @ CHR ''/'' # appendInt [] (int (day (date b1))) 2 @
          CHR ''/'' # failureID b1 @ CHR ''/'' # z"
    by simp
  from seg_cancel[OF ns(4) ns(3) this]
  have "appendInt [] (year (date b2)) 4 @ CHR ''/'' #
          appendInt [] (int (month (date b2))) 2 @ CHR ''/'' # appendInt [] (int (day (date b2))) 2 @
          CHR ''/'' # failureID b2 @ CHR ''/'' # [] =
        appendInt [] (year (date b1)) 4 @ CHR ''/'' #
          appendInt [] (int (month (date b1))) 2 @ CHR ''/'' # appendInt [] (int (day (date b1))) 2 @
          CHR ''/'' # failureID b1 @ CHR ''/'' # z"
    by simp
  from seg_cancel[OF nd nd this]
  have "appendInt [] (int (month (date b2))) 2 @ CHR ''/'' # appendInt [] (int (day (date b2))) 2 @
          CHR ''/'' # failureID b2 @ CHR ''/'' # [] =
        appendInt [] (int (month (date b1))) 2 @ CHR ''/'' # appendInt [] (int (day (date b1))) 2 @
          CHR ''/'' # failureID b1 @ CHR ''/'' # z"
    by simp
  from seg_cancel[OF nd nd this]
  have "appendInt [] (int (day (date b2))) 2 @ CHR ''/'' # failureID b2 @ CHR ''/'' # [] =
        appendInt [] (int (day (date b1))) 2 @ CHR ''/'' # failureID b1 @ CHR ''/'' # z"
    by simp
  from seg_cancel[OF nd nd this]
  have "failureID b2 @ CHR ''/'' # [] = failureID b1 @ CHR ''/'' # z"
    by simp
  from seg_cancel[OF ns(6) ns(5) this] show ?thesis by simp
qed

lemma AllKeys_under_prefix:
  assumes "valid_identity b" and "list_all no_dotdot fs" and "k \<in> set (AllKeys b fs)"
  shows "prefix (Prefix b) k"
proof -
  from assms(3) consider "k \<in> set (RequiredKeys b)" | "k = ResponseRaw b" | "k \<in> File b ` set fs"
    by (auto simp: AllKeys_eq)
  then show ?thesis
  proof cases
    case 1
    then show ?thesis by (auto simp: RequiredKeys_def fixed_keys[OF assms(1)])
  next
    case 2
    then show ?thesis by (simp add: fixed_keys[OF assms(1)])
  next
    case 3
    then obtain f where "f \<in> set fs" and k: "k = File b f" by blast
    with assms(2) have "no_dotdot f" by (simp add: list_all_iff)
    from File_without_dotdot[OF assms(1) this] k show ?thesis
      by (simp add: attachment_key_under_prefix)
  qed
qed

text \<open>
  The keys are a function of the four fields of the builder: the reading of the clock in
  \<^verbatim>\<open>NewBuilder\<close> plays no part once the date is set. For two valid identities with
  distinct bundle identifiers, whatever their projects, environments and dates, neither
  prefix is a prefix of the other; and no key of the one bundle is a key of the other as
  long as no attachment file name has a \<open>..\<close> segment.
\<close>

lemma keys_disjoint_without_dotdot:
  assumes "valid_identity b1" and "valid_identity b2" and "failureID b1 \<noteq> failureID b2"
    and "list_all no_dotdot fs1" and "list_all no_dotdot fs2"
  shows "AllKeys (WithDate (NewBuilder (project b1) (env b1) (failureID b1) now) (date b1)) fs1 =
           AllKeys b1 fs1
         \<and> \<not> prefix (Prefix b1) (Prefix b2) \<and> \<not> prefix (Prefix b2) (Prefix b1)
         \<and> set (AllKeys b1 fs1) \<inter> set (AllKeys b2 fs2) = {}"
proof -
  have same: "WithDate (NewBuilder (project b1) (env b1) (failureID b1) now) (date b1) = b1"
    by (simp add: WithDate_def NewBuilder_def)
  have n12: "\<not> prefix (Prefix b1) (Prefix b2)"
    using prefix_same_id[OF assms(1,2)] assms(3) by blast
  have n21: "\<not> prefix (Prefix b2) (Prefix b1)"
    using prefix_same_id[OF assms(2,1)] assms(3) by fastforce
  have "set (AllKeys b1 fs1) \<inter> set (AllKeys b2 fs2) = {}"
  proof (rule ccontr)
    assume "set (AllKeys b1 fs1) \<inter> set (AllKeys b2 fs2) \<noteq> {}"
    then obtain k where k1: "k \<in> set (AllKeys b1 fs1)" and k2: "k \<in> set (AllKeys b2 fs2)"
      by blast
    have "prefix (Prefix b1) k" using assms(1,4) k1 by (rule AllKeys_under_prefix)
    moreover have "prefix (Prefix b2) k" using assms(2,5) k2 by (rule AllKeys_under_prefix)
    ultimately have "prefix (Prefix b1) (Prefix b2) \<or> prefix (Prefix b2) (Prefix b1)"
      by (rule prefix_same_cases)
    with n12 n21 show False by blast
  qed
  with same n12 n21 show ?thesis by simp
qed

subsection \<open>The concrete bundle\<close>

lemma ex_builder_valid: "valid_identity ex_builder"
  by (simp add: valid_identity_def ex_builder_def NewBuilder_def projectRegex_def envRegex_def
      word_class_def path_elem_def)

lemma ex_other_valid: "valid_identity (NewBuilder ''myapp'' ''prod'' ''xyz-789'' ex_date)"
  by (simp add: valid_identity_def NewBuilder_def projectRegex_def envRegex_def
      word_class_def path_elem_def)

lemma ex_date_valid: "valid_date (date ex_builder)"
  by (simp add: valid_date_def ex_builder_def NewBuilder_def ex_date_def)

lemma ex_date_digits:
  "four_digits (nat (year ex_date)) = ''2024''" "two_digits (month ex_date) = ''03''"
  "two_digits (day ex_date) = ''15''"
  by (simp_all add: four_digits_def two_digits_def ex_date_def digit_char_def)

lemma clean_a_jpg: "clean_filename ''a.jpg''"
  by (simp add: clean_filename_def path_elem_def)

subsection \<open>Prefix and keys\<close>

text \<open>
  C3. For every valid identity and date, the prefix is \<open>failures/\<close>, the project, the
  environment, the year on four digits, the month and the day on two digits and the bundle
  identifier, each followed by a slash; and the four required keys are the prefix followed
  by \<open>envelope.json\<close>, \<open>request.raw\<close>, \<open>request.headers.json\<close> and \<open>checksums.json\<close>.
\<close>

theorem key_derivation_follows_algorithm:
  assumes "valid_identity b" and "valid_date (date b)"
  shows "Prefix b =
           ''failures/'' @ project b @ ''/'' @ env b @ ''/'' @ four_digits (nat (year (date b))) @ ''/''
             @ two_digits (month (date b)) @ ''/'' @ two_digits (day (date b)) @ ''/''
             @ failureID b @ ''/''
         \<and> RequiredKeys b =
           [Prefix b @ ''envelope.json'', Prefix b @ ''request.raw'',
            Prefix b @ ''request.headers.json'', Prefix b @ ''checksums.json'']"
proof -
  have y0: "0 \<le> year (date b)" and y9: "year (date b) \<le> 9999"
    using assms(2) by (simp_all add: valid_date_def)
  then have y1: "nat (year (date b)) < 10000" by linarith
  have y: "appendInt [] (year (date b)) 4 = four_digits (nat (year (date b)))"
    using appendInt_four_digits[OF y1] y0 by simp
  have m: "appendInt [] (int (month (date b))) 2 = two_digits (month (date b))"
    using assms(2) by (intro appendInt_two_digits) (simp add: valid_date_def)
  have d: "appendInt [] (int (day (date b))) 2 = two_digits (day (date b))"
    using assms(2) by (intro appendInt_two_digits) (simp add: valid_date_def)
  have "Prefix b =
           ''failures/'' @ project b @ ''/'' @ env b @ ''/'' @ four_digits (nat (year (date b))) @ ''/''
             @ two_digits (month (date b)) @ ''/'' @ two_digits (day (date b)) @ ''/''
             @ failureID b @ ''/''"
    by (simp add: Prefix_parts y m d)
  moreover have "RequiredKeys b =
           [Prefix b @ ''envelope.json'', Prefix b @ ''request.raw'',
            Prefix b @ ''request.headers.json'', Prefix b @ ''checksums.json'']"
    by (simp add: RequiredKeys_def fixed_keys[OF assms(1)])
  ultimately show ?thesis by (rule conjI)
qed

theorem key_derivation_follows_algorithm_witness:
  "valid_identity ex_builder \<and> valid_date (date ex_builder)
   \<and> Prefix ex_builder = ''failures/myapp/prod/2024/03/15/abc-123/''
   \<and> hd (RequiredKeys ex_builder) = ''failures/myapp/prod/2024/03/15/abc-123/envelope.json''
   \<and> RequiredKeys ex_builder =
       [''failures/myapp/prod/2024/03/15/abc-123/envelope.json'',
        ''failures/myapp/prod/2024/03/15/abc-123/request.raw'',
        ''failures/myapp/prod/2024/03/15/abc-123/request.headers.json'',
        ''failures/myapp/prod/2024/03/15/abc-123/checksums.json'']"
proof -
  note w = key_derivation_follows_algorithm[OF ex_builder_valid ex_date_valid]
  have f: "project ex_builder = ''myapp''" "env ex_builder = ''prod''"
    "failureID ex_builder = ''abc-123''" "date ex_builder = ex_date"
    by (simp_all add: ex_builder_def NewBuilder_def)
  have p: "Prefix ex_builder = ''failures/myapp/prod/2024/03/15/abc-123/''"
    using w[THEN conjunct1] by (simp add: f ex_date_digits)
  have r: "RequiredKeys ex_builder =
       [''failures/myapp/prod/2024/03/15/abc-123/envelope.json'',
        ''failures/myapp/prod/2024/03/15/abc-123/request.raw'',
        ''failures/myapp/prod/2024/03/15/abc-123/request.headers.json'',
        ''failures/myapp/prod/2024/03/15/abc-123/checksums.json'']"
    using w[THEN conjunct2] by (simp add: p)
  show ?thesis using ex_builder_valid ex_date_valid p r by simp
qed

section \<open>Completion: verification and notification\<close>

subsection \<open>The existence checks\<close>

lemma verify_loop_filter:
  "verify_loop p keys missing =
     Inr (missing @ filter (\<lambda>k. HeadObject (client p) (bucket p) k \<noteq> None) keys)"
  by (induction keys arbitrary: missing) (auto simp: ObjectExists_def split: option.splits)

lemma VerifyObjectsExist_filter:
  "VerifyObjectsExist p keys = Inr (filter (\<lambda>k. HeadObject (client p) (bucket p) k \<noteq> None) keys)"
  by (simp add: VerifyObjectsExist_def verify_loop_filter)

lemma VerifyObjectsExist_not_present:
  "VerifyObjectsExist (presigner h) keys = Inr (filter (\<lambda>k. \<not> present h k) keys)"
  by (simp add: VerifyObjectsExist_filter present_def)

lemma ValidateUploadCompleteRequest_Nil_iff:
  "ValidateUploadCompleteRequest req = [] \<longleftrightarrow>
     FailureID_c req \<noteq> [] \<and> projectRegex (Project_c req) \<and> envRegex (Env_c req) \<and>
     UploadedKeys req \<noteq> []"
  by (auto simp: ValidateUploadCompleteRequest_def Let_def projectRegex_def envRegex_def)

lemma no_missing_iff: "filter (\<lambda>k. \<not> present h k) keys = [] \<longleftrightarrow> list_all (present h) keys"
  by (simp add: filter_empty_conv list_all_iff)

subsection \<open>The answer and the events of a valid completion request\<close>

lemma UploadComplete_missing:
  assumes "ValidateUploadCompleteRequest req = []" and "\<not> list_all (present h) (UploadedKeys req)"
  shows "UploadComplete h now (Inr req) =
     (missing_objects_response,
      [LogEvent InfoLevel
         [StrField ''failureId'' (FailureID_c req), StrField ''project'' (Project_c req),
          StrField ''env'' (Env_c req), IntField ''uploadedKeys'' (int (length (UploadedKeys req)))]
         ''processing upload complete'',
       LogEvent WarnLevel
         [StrField ''failureId'' (FailureID_c req),
          StrsField ''missing'' (filter (\<lambda>k. \<not> present h k) (UploadedKeys req))]
         ''missing objects in S3''])"
  using assms
  by (simp add: UploadComplete_def VerifyObjectsExist_not_present no_missing_iff Let_def
      missing_objects_response_def)

lemma UploadComplete_verified_response:
  assumes "ValidateUploadCompleteRequest req = []" and "list_all (present h) (UploadedKeys req)"
  shows "fst (UploadComplete h now (Inr req)) = ok_response"
  using assms
  by (simp add: UploadComplete_def VerifyObjectsExist_not_present no_missing_iff Let_def
      ok_response_def split: prod.splits)

lemma UploadComplete_response:
  assumes "ValidateUploadCompleteRequest req = []"
  shows "fst (UploadComplete h now (Inr req)) =
     (if list_all (present h) (UploadedKeys req) then ok_response else missing_objects_response)"
  using assms UploadComplete_missing[of req h now] UploadComplete_verified_response[of req h now]
  by simp

lemma sends_of_SendFailureNotification:
  "filter is_send (snd (SendFailureNotification s notif)) =
     [SendEmailCall \<lparr>Source = from_addr s, ToAddresses = [to_addr s],
        Subject = ''['' @ Project_n notif @ ''/'' @ Env_n notif @ ''] Failed Request Captured: ''
                    @ FailureID_n notif,
        BodyOf = notif\<rparr>]"
  by (auto simp: SendFailureNotification_def Let_def is_send_def split: option.splits)

lemma sends_of_PresignGet: "filter is_send (snd (PresignGet p k)) = []"
  by (auto simp: PresignGet_def is_send_def split: sum.splits)

lemma UploadComplete_verified_sends:
  assumes "ValidateUploadCompleteRequest req = []" and "list_all (present h) (UploadedKeys req)"
  shows "length (filter is_send (snd (UploadComplete h now (Inr req)))) =
     (case emailer h of None \<Rightarrow> 0 | Some s \<Rightarrow> 1)"
proof -
  let ?kb = "NewBuilder (Project_c req) (Env_c req) (FailureID_c req) now"
  obtain r evs where pg: "PresignGet (presigner h) (Envelope ?kb) = (r, evs)"
    by (cases "PresignGet (presigner h) (Envelope ?kb)")
  have evs: "filter is_send evs = []"
    using sends_of_PresignGet[of "presigner h" "Envelope ?kb"] pg by simp
  show ?thesis
  proof (cases "emailer h")
    case None
    with assms pg evs show ?thesis
      by (cases r)
        (simp_all add: UploadComplete_def VerifyObjectsExist_not_present no_missing_iff Let_def
          is_send_def)
  next
    case (Some s)
    have one: "length (filter is_send (snd (SendFailureNotification s notif))) = 1" for notif
      by (simp add: sends_of_SendFailureNotification)
    show ?thesis
    proof (cases r)
      case (Inl err)
      obtain e evs' where sf: "SendFailureNotification s
          \<lparr>FailureID_n = FailureID_c req, Project_n = Project_c req, Env_n = Env_c req,
           Method_n = [], URL_n = [], AppVersion_n = [], Platform_n = [], EnvelopeURL = []\<rparr> = (e, evs')"
        by (cases "SendFailureNotification s
          \<lparr>FailureID_n = FailureID_c req, Project_n = Project_c req, Env_n = Env_c req,
           Method_n = [], URL_n = [], AppVersion_n = [], Platform_n = [], EnvelopeURL = []\<rparr>")
      with one[of "\<lparr>FailureID_n = FailureID_c req, Project_n = Project_c req, Env_n = Env_c req,
           Method_n = [], URL_n = [], AppVersion_n = [], Platform_n = [], EnvelopeURL = []\<rparr>"]
      have "length (filter is_send evs') = 1" by simp
      with assms pg evs Some Inl sf show ?thesis
        by (cases e)
          (simp_all add: UploadComplete_def VerifyObjectsExist_not_present no_missing_iff Let_def
            is_send_def)
    next
      case (Inr url)
      obtain e evs' where sf: "SendFailureNotification s
          \<lparr>FailureID_n = FailureID_c req, Project_n = Project_c req, Env_n = Env_c req,
           Method_n = [], URL_n = [], AppVersion_n = [], Platform_n = [], EnvelopeURL = url\<rparr> = (e, evs')"
        by (cases "SendFailureNotification s
          \<lparr>FailureID_n = FailureID_c req, Project_n = Project_c req, Env_n = Env_c req,
           Method_n = [], URL_n = [], AppVersion_n = [], Platform_n = [], EnvelopeURL = url\<rparr>")
      with one[of "\<lparr>FailureID_n = FailureID_c req, Project_n = Project_c req, Env_n = Env_c req,
           Method_n = [], URL_n = [], AppVersion_n = [], Platform_n = [], EnvelopeURL = url\<rparr>"]
      have "length (filter is_send evs') = 1" by simp
      with assms pg evs Some Inr sf show ?thesis
        by (cases e)
          (simp_all add: UploadComplete_def VerifyObjectsExist_not_present no_missing_iff Let_def
            is_send_def)
    qed
  qed
qed

text \<open>The branch that answers \<open>verification_failed\<close> is never taken.\<close>

lemma UploadComplete_never_verification_failed:
  "fst (UploadComplete h now decoded) \<noteq> verification_failed_response"
  by (auto simp: UploadComplete_def VerifyObjectsExist_not_present Let_def
      verification_failed_response_def writeError_def writeJSON_def writeValidationErrors_def
      split: sum.splits prod.splits)

subsection \<open>The concrete deployment\<close>

lemma ex_complete_valid: "ValidateUploadCompleteRequest ex_complete = []"
  by (simp add: ValidateUploadCompleteRequest_Nil_iff ex_complete_def projectRegex_def envRegex_def
      word_class_def ex_stored_def)

lemma ex_complete_foreign_valid: "ValidateUploadCompleteRequest ex_complete_foreign = []"
  by (simp add: ValidateUploadCompleteRequest_Nil_iff ex_complete_foreign_def projectRegex_def
      envRegex_def word_class_def ex_stored_def)

lemma ex_stored_present:
  "list_all (present ex_handler) ex_stored"
  "list_all (present ex_handler_mail_down) ex_stored"
  "list_all (present ex_handler_no_mail) ex_stored"
  by (simp_all add: present_def ex_handler_def ex_handler_mail_down_def ex_handler_no_mail_def
      ex_s3_def list_all_iff)

section \<open>Properties of the completion step\<close>

text \<open>
  C1, as the code has it. When every existence check answers cleanly (found or not found)
  and at least one claimed key is absent, the completion fails with status 400 and the
  category \<open>missing_objects\<close>. The response carries a fixed message and no key; the
  complete list of the absent claimed keys (every one of them, in the order of the claim,
  not just the first) is what the warning written to the log names.
\<close>

theorem missing_objects_all_named_in_log:
  assumes "ValidateUploadCompleteRequest req = []"
    and "\<forall>k \<in> set (UploadedKeys req). \<not> check_failed h k"
    and "\<exists>k \<in> set (UploadedKeys req). absent h k"
  shows "UploadComplete h now (Inr req) =
     (\<lparr>status = 400,
       body = ErrorBody \<lparr>Error = ''Some objects were not found in S3'', Code = ''missing_objects'',
                         Details = []\<rparr>\<rparr>,
      [LogEvent InfoLevel
         [StrField ''failureId'' (FailureID_c req), StrField ''project'' (Project_c req),
          StrField ''env'' (Env_c req), IntField ''uploadedKeys'' (int (length (UploadedKeys req)))]
         ''processing upload complete'',
       LogEvent WarnLevel
         [StrField ''failureId'' (FailureID_c req),
          StrsField ''missing'' (filter (absent h) (UploadedKeys req))]
         ''missing objects in S3''])"
proof -
  have eq: "filter (\<lambda>k. \<not> present h k) (UploadedKeys req) = filter (absent h) (UploadedKeys req)"
    using assms(2) by (intro filter_cong) (auto simp: check_failed_def absent_def present_def)
  have "\<not> list_all (present h) (UploadedKeys req)"
    using assms(3) by (auto simp: list_all_iff absent_def present_def)
  from UploadComplete_missing[OF assms(1) this, of now] show ?thesis
    by (simp add: eq missing_objects_response_def writeError_def writeJSON_def)
qed

theorem missing_objects_all_named_in_log_witness:
  "UploadComplete ex_handler ex_date
     (Inr (ex_complete\<lparr>UploadedKeys := [''failures/myapp/prod/2024/03/15/abc-123/envelope.json'',
                                         ''failures/myapp/prod/2024/03/15/abc-123/response.raw'',
                                         ''failures/myapp/prod/2024/03/15/abc-123/files/a.jpg'']\<rparr>)) =
     (\<lparr>status = 400,
       body = ErrorBody \<lparr>Error = ''Some objects were not found in S3'', Code = ''missing_objects'',
                         Details = []\<rparr>\<rparr>,
      [LogEvent InfoLevel
         [StrField ''failureId'' ''abc-123'', StrField ''project'' ''myapp'',
          StrField ''env'' ''prod'', IntField ''uploadedKeys'' 3]
         ''processing upload complete'',
       LogEvent WarnLevel
         [StrField ''failureId'' ''abc-123'',
          StrsField ''missing'' [''failures/myapp/prod/2024/03/15/abc-123/response.raw'',
                                 ''failures/myapp/prod/2024/03/15/abc-123/files/a.jpg'']]
         ''missing objects in S3''])"
  using missing_objects_all_named_in_log
    [of "ex_complete\<lparr>UploadedKeys := [''failures/myapp/prod/2024/03/15/abc-123/envelope.json'',
                                       ''failures/myapp/prod/2024/03/15/abc-123/response.raw'',
                                       ''failures/myapp/prod/2024/03/15/abc-123/files/a.jpg'']\<rparr>"
        ex_handler ex_date]
  by (simp add: ValidateUploadCompleteRequest_Nil_iff ex_complete_def projectRegex_def envRegex_def
      word_class_def check_failed_def absent_def present_def ex_handler_def ex_s3_def ex_stored_def)

text \<open>
  The claim as stated fails: two claims with different absent keys get the very same
  failure response, which names none of them.
\<close>

theorem missing_objects_response_names_no_key:
  "fst (UploadComplete ex_handler ex_date (Inr (ex_complete\<lparr>UploadedKeys := [''k1'']\<rparr>))) =
     \<lparr>status = 400,
      body = ErrorBody \<lparr>Error = ''Some objects were not found in S3'', Code = ''missing_objects'',
                        Details = []\<rparr>\<rparr>
   \<and> fst (UploadComplete ex_handler ex_date (Inr (ex_complete\<lparr>UploadedKeys := [''k2'', ''k3'']\<rparr>))) =
     \<lparr>status = 400,
      body = ErrorBody \<lparr>Error = ''Some objects were not found in S3'', Code = ''missing_objects'',
                        Details = []\<rparr>\<rparr>
   \<and> filter (absent ex_handler) [''k1''] = [''k1'']
   \<and> filter (absent ex_handler) [''k2'', ''k3''] = [''k2'', ''k3'']"
proof -
  have v: "ValidateUploadCompleteRequest (ex_complete\<lparr>UploadedKeys := ks\<rparr>) = []" if "ks \<noteq> []" for ks
    using that ex_complete_valid by (simp add: ValidateUploadCompleteRequest_Nil_iff)
  have a: "\<not> present ex_handler ''k1''" "\<not> present ex_handler ''k2''"
    by (simp_all add: present_def ex_handler_def ex_s3_def ex_stored_def)
  have b: "absent ex_handler ''k1''" "absent ex_handler ''k2''" "absent ex_handler ''k3''"
    by (simp_all add: absent_def ex_handler_def ex_s3_def ex_stored_def)
  show ?thesis
    using a b
    by (simp add: UploadComplete_response v missing_objects_response_def writeError_def writeJSON_def)
qed

text \<open>
  C2 states that an existence check that itself fails aborts the completion with a
  verification-failed error. At the input below every \<^verbatim>\<open>HeadObject\<close> request is refused
  (access denied); the code counts the keys as absent and answers \<open>missing_objects\<close>.
\<close>

theorem failed_check_is_reported_as_missing:
  "check_failed ex_handler_denied ''failures/myapp/prod/2024/03/15/abc-123/envelope.json''
   \<and> ObjectExists (presigner ex_handler_denied) ''failures/myapp/prod/2024/03/15/abc-123/envelope.json''
       = Inr False
   \<and> fst (UploadComplete ex_handler_denied ex_date (Inr ex_complete)) = missing_objects_response
   \<and> fst (UploadComplete ex_handler_denied ex_date (Inr ex_complete)) \<noteq> verification_failed_response"
proof -
  have np: "\<not> list_all (present ex_handler_denied) (UploadedKeys ex_complete)"
    by (simp add: present_def ex_handler_denied_def ex_complete_def ex_stored_def)
  have "fst (UploadComplete ex_handler_denied ex_date (Inr ex_complete)) = missing_objects_response"
    using np by (simp add: UploadComplete_response ex_complete_valid)
  moreover have "missing_objects_response \<noteq> verification_failed_response"
    by (simp add: missing_objects_response_def verification_failed_response_def writeError_def
        writeJSON_def)
  ultimately show ?thesis
    by (simp add: check_failed_def present_def absent_def ObjectExists_def ex_handler_denied_def)
qed

text \<open>
  C8, as the code has it. For every valid completion claim whose claimed keys are all
  present in storage, the completion answers the success acknowledgment, and it invokes
  the notifier's send operation exactly once when the handler has an email sender, and not
  at all when it runs without one (notifications disabled).
\<close>

theorem verified_completion_notifies_once_if_sender:
  assumes "ValidateUploadCompleteRequest req = []" and "list_all (present h) (UploadedKeys req)"
  shows "fst (UploadComplete h now (Inr req)) =
           \<lparr>status = 200, body = CompleteBody \<lparr>Status = ''ok''\<rparr>\<rparr>
         \<and> length (filter is_send (snd (UploadComplete h now (Inr req)))) =
           (case emailer h of None \<Rightarrow> 0 | Some s \<Rightarrow> 1)"
  using UploadComplete_verified_response[OF assms, of now] UploadComplete_verified_sends[OF assms, of now]
  by (simp add: ok_response_def writeJSON_def)

theorem verified_completion_notifies_once_if_sender_witness:
  "ValidateUploadCompleteRequest ex_complete = []
   \<and> list_all (present ex_handler) (UploadedKeys ex_complete)
   \<and> fst (UploadComplete ex_handler ex_date (Inr ex_complete)) =
       \<lparr>status = 200, body = CompleteBody \<lparr>Status = ''ok''\<rparr>\<rparr>
   \<and> length (filter is_send (snd (UploadComplete ex_handler ex_date (Inr ex_complete)))) = 1"
proof -
  have p: "list_all (present ex_handler) (UploadedKeys ex_complete)"
    using ex_stored_present(1) by (simp add: ex_complete_def)
  have e: "emailer ex_handler = Some ex_sender" by (simp add: ex_handler_def)
  show ?thesis
    using verified_completion_notifies_once_if_sender[OF ex_complete_valid p, of ex_date] p
      ex_complete_valid
    by (simp add: e)
qed

text \<open>
  The claim as stated fails: without an email sender, a valid claim whose keys are all
  present is acknowledged and the send operation is not invoked.
\<close>

theorem verified_completion_without_sender_sends_nothing:
  "ValidateUploadCompleteRequest ex_complete = []
   \<and> list_all (present ex_handler_no_mail) (UploadedKeys ex_complete)
   \<and> fst (UploadComplete ex_handler_no_mail ex_date (Inr ex_complete)) = ok_response
   \<and> filter is_send (snd (UploadComplete ex_handler_no_mail ex_date (Inr ex_complete))) = []"
proof -
  have p: "list_all (present ex_handler_no_mail) (UploadedKeys ex_complete)"
    using ex_stored_present(3) by (simp add: ex_complete_def)
  have e: "emailer ex_handler_no_mail = None" by (simp add: ex_handler_no_mail_def)
  have "length (filter is_send (snd (UploadComplete ex_handler_no_mail ex_date (Inr ex_complete)))) = 0"
    using UploadComplete_verified_sends[OF ex_complete_valid p, of ex_date] by (simp add: e)
  then show ?thesis
    using UploadComplete_verified_response[OF ex_complete_valid p, of ex_date] p ex_complete_valid
    by simp
qed

text \<open>
  C9. For every valid completion claim whose claimed keys are all present in storage, if
  the send operation of the notifier fails, the completion still answers the success
  acknowledgment: the same response as with a sender whose send succeeds. The failure is
  written to the log.
\<close>

theorem notifier_failure_is_not_fatal:
  assumes "ValidateUploadCompleteRequest req = []" and "list_all (present h) (UploadedKeys req)"
    and "emailer h = Some s" and "\<And>input. SendEmail s input = Some err"
  shows "fst (UploadComplete h now (Inr req)) =
           \<lparr>status = 200, body = CompleteBody \<lparr>Status = ''ok''\<rparr>\<rparr>
         \<and> fst (UploadComplete h now (Inr req)) =
           fst (UploadComplete (h\<lparr>emailer := Some (s\<lparr>SendEmail := (\<lambda>input. None)\<rparr>)\<rparr>) now (Inr req))
         \<and> LogEvent ErrorLevel [ErrField err] ''failed to send email notification''
             \<in> set (snd (UploadComplete h now (Inr req)))"
proof -
  let ?h' = "h\<lparr>emailer := Some (s\<lparr>SendEmail := (\<lambda>input. None)\<rparr>)\<rparr>"
  have "present ?h' = present h"
    by (simp add: present_def fun_eq_iff)
  then have p': "list_all (present ?h') (UploadedKeys req)"
    using assms(2) by simp
  have r: "fst (UploadComplete h now (Inr req)) = ok_response"
    using assms(1,2) by (rule UploadComplete_verified_response)
  have r': "fst (UploadComplete ?h' now (Inr req)) = ok_response"
    using assms(1) p' by (rule UploadComplete_verified_response)
  have "LogEvent ErrorLevel [ErrField err] ''failed to send email notification''
          \<in> set (snd (UploadComplete h now (Inr req)))"
    using assms
    by (simp add: UploadComplete_def VerifyObjectsExist_not_present no_missing_iff Let_def
        SendFailureNotification_def split: prod.splits)
  with r r' show ?thesis by (simp add: ok_response_def writeJSON_def)
qed

theorem notifier_failure_is_not_fatal_witness:
  "ValidateUploadCompleteRequest ex_complete = []
   \<and> list_all (present ex_handler_mail_down) (UploadedKeys ex_complete)
   \<and> fst (UploadComplete ex_handler_mail_down ex_date (Inr ex_complete)) =
       \<lparr>status = 200, body = CompleteBody \<lparr>Status = ''ok''\<rparr>\<rparr>
   \<and> fst (UploadComplete ex_handler_mail_down ex_date (Inr ex_complete)) =
       fst (UploadComplete ex_handler ex_date (Inr ex_complete))
   \<and> LogEvent ErrorLevel [ErrField RequestTimeout] ''failed to send email notification''
       \<in> set (snd (UploadComplete ex_handler_mail_down ex_date (Inr ex_complete)))"
proof -
  have p: "list_all (present ex_handler_mail_down) (UploadedKeys ex_complete)"
    using ex_stored_present(2) by (simp add: ex_complete_def)
  have e: "emailer ex_handler_mail_down = Some (ex_sender\<lparr>SendEmail := (\<lambda>input. Some RequestTimeout)\<rparr>)"
    by (simp add: ex_handler_mail_down_def)
  have s: "SendEmail (ex_sender\<lparr>SendEmail := (\<lambda>input. Some RequestTimeout)\<rparr>) input = Some RequestTimeout"
    for input by simp
  have h: "ex_handler_mail_down
             \<lparr>emailer := Some (ex_sender\<lparr>SendEmail := (\<lambda>input. Some RequestTimeout)\<rparr>
                                        \<lparr>SendEmail := (\<lambda>input. None)\<rparr>)\<rparr> = ex_handler"
    by (simp add: ex_handler_mail_down_def ex_handler_def ex_sender_def)
  note w = notifier_failure_is_not_fatal[OF ex_complete_valid p e s, of ex_date]
  show ?thesis
    using w[unfolded h] p ex_complete_valid by blast
qed

text \<open>
  C10. The completion never checks that the claimed keys belong to the claimed bundle.
  Two valid claims that list the same keys get the same response, whatever their bundle
  identifier, project and environment are and whenever they arrive; and a valid claim
  whose listed keys all exist is acknowledged, wherever those keys lie.
\<close>

theorem completion_depends_on_listed_keys_only:
  assumes "ValidateUploadCompleteRequest req1 = []" and "ValidateUploadCompleteRequest req2 = []"
    and "UploadedKeys req1 = UploadedKeys req2"
  shows "fst (UploadComplete h now1 (Inr req1)) = fst (UploadComplete h now2 (Inr req2))
         \<and> fst (UploadComplete h now1 (Inr req1)) =
             (if list_all (present h) (UploadedKeys req1)
              then \<lparr>status = 200, body = CompleteBody \<lparr>Status = ''ok''\<rparr>\<rparr>
              else \<lparr>status = 400,
                    body = ErrorBody \<lparr>Error = ''Some objects were not found in S3'',
                                      Code = ''missing_objects'', Details = []\<rparr>\<rparr>)"
  using assms
  by (simp add: UploadComplete_response ok_response_def missing_objects_response_def writeError_def
      writeJSON_def)

theorem completion_depends_on_listed_keys_only_witness:
  "ValidateUploadCompleteRequest ex_complete_foreign = []
   \<and> ValidateUploadCompleteRequest ex_complete = []
   \<and> UploadedKeys ex_complete_foreign = UploadedKeys ex_complete
   \<and> FailureID_c ex_complete_foreign \<noteq> FailureID_c ex_complete
   \<and> list_all (\<lambda>k. \<not> prefix (Prefix (NewBuilder ''testapp'' ''staging'' ''xyz-789'' ex_date)) k)
        (UploadedKeys ex_complete_foreign)
   \<and> fst (UploadComplete ex_handler ex_date (Inr ex_complete_foreign)) =
       fst (UploadComplete ex_handler ex_date (Inr ex_complete))
   \<and> fst (UploadComplete ex_handler ex_date (Inr ex_complete_foreign)) =
       \<lparr>status = 200, body = CompleteBody \<lparr>Status = ''ok''\<rparr>\<rparr>"
proof -
  have k: "UploadedKeys ex_complete_foreign = UploadedKeys ex_complete"
    by (simp add: ex_complete_foreign_def ex_complete_def)
  have p: "list_all (present ex_handler) (UploadedKeys ex_complete_foreign)"
    using ex_stored_present(1) by (simp add: ex_complete_foreign_def)
  have f: "FailureID_c ex_complete_foreign \<noteq> FailureID_c ex_complete"
    by (simp add: ex_complete_foreign_def ex_complete_def)
  have o: "list_all (\<lambda>k. \<not> prefix (Prefix (NewBuilder ''testapp'' ''staging'' ''xyz-789'' ex_date)) k)
        (UploadedKeys ex_complete_foreign)"
    by (simp add: ex_complete_foreign_def ex_stored_def Prefix_def NewBuilder_def)
  note w = completion_depends_on_listed_keys_only
      [OF ex_complete_foreign_valid ex_complete_valid k, of ex_handler ex_date ex_date]
  from w have w1: "fst (UploadComplete ex_handler ex_date (Inr ex_complete_foreign)) =
       fst (UploadComplete ex_handler ex_date (Inr ex_complete))"
    by (rule conjunct1)
  have w2: "fst (UploadComplete ex_handler ex_date (Inr ex_complete_foreign)) =
       \<lparr>status = 200, body = CompleteBody \<lparr>Status = ''ok''\<rparr>\<rparr>"
    using w[THEN conjunct2] by (simp only: p if_True)
  show ?thesis
    using ex_complete_foreign_valid ex_complete_valid k f o w1 w2
    by (intro conjI) assumption+
qed

section \<open>Properties of the ticket\<close>

subsection \<open>The concrete ticket request\<close>

lemma ex_ticket_valid: "ValidateUploadTicketRequest (\<lambda>s. s) (\<lambda>s. s) ex_ticket ex_cfg = []"
  by code_simp

lemma ex_ticket_builder_valid: "valid_identity ex_ticket_builder"
  by (simp add: valid_identity_def ex_ticket_builder_def ex_ticket_def ex_uuid_def NewBuilder_def
      projectRegex_def envRegex_def word_class_def path_elem_def)

lemma ex_ticket_prefix:
  "Prefix ex_ticket_builder = ''failures/myapp/prod/2024/03/15/550e8400-e29b-41d4-a716-446655440000/''"
  by code_simp

lemma ex_ticket_files_clean:
  "list_all (\<lambda>file. clean_filename (Filename file)) (Files (Request ex_ticket))"
  by (simp add: ex_ticket_def clean_a_jpg)

lemma ex_handler_grants: "list_all (granted ex_handler) kcs"
  by (simp add: list_all_iff granted_def ex_handler_def ex_s3_def)

lemma ex_cfg_handlers: "cfg ex_handler = ex_cfg" "cfg ex_handler_one_refusal = ex_cfg"
  by (simp_all add: ex_handler_def ex_handler_one_refusal_def)

subsection \<open>Attachment keys\<close>

lemma ex_ticket_files_no_dotdot:
  "list_all (\<lambda>file. no_dotdot (Filename file)) (Files (Request ex_ticket))"
  using ex_ticket_files_clean by (simp add: list_all_iff clean_filename_no_dotdot)

lemma no_dotdot_example: "no_dotdot ''./a//b.jpg''"
  by (simp add: no_dotdot_def)

lemma kept_segments_example: "kept_segments ''./a//b.jpg'' = [''a'', ''b.jpg'']"
  by (simp add: kept_segments_def)

text \<open>
  C5, as the code has it. The key of an attachment whose file name has no \<open>..\<close> segment
  is the prefix, \<open>files/\<close> and the file name without its empty and \<open>.\<close> segments
  (\<^verbatim>\<open>path.Join\<close> drops them); for a clean relative path that is the file name verbatim.
  When the store grants every request, the ticket is issued and holds one attachment
  key per declared file, in order, so that a file name declared twice gives the same key
  twice, and no error.
\<close>

theorem attachment_names_are_joined_to_the_prefix:
  assumes "valid_identity kb" and "no_dotdot f"
    and "list_all (\<lambda>file. no_dotdot (Filename file)) (Files (Request req))"
    and "list_all (granted h) (slot_requests kb req)"
  shows "File kb f = attachment_key kb f
         \<and> (clean_filename f \<longrightarrow> File kb f = Prefix kb @ ''files/'' @ f)
         \<and> (\<exists>uploads. generatePresignedURLs h kb req = (Inr uploads, [])
               \<and> map Key (Files_u uploads) =
                   map (\<lambda>file. attachment_key kb (Filename file)) (Files (Request req)))"
proof -
  have k: "File kb f = attachment_key kb f"
    using assms(1,2) by (rule File_without_dotdot)
  have v: "clean_filename f \<longrightarrow> File kb f = Prefix kb @ ''files/'' @ f"
    using k by (simp add: attachment_key_clean)
  have "map Key (Files_u (issued_uploads h kb req)) =
          map (\<lambda>file. File kb (Filename file)) (Files (Request req))"
    by (simp add: issued_uploads_def slot_requests_def grant_of_def comp_def)
  also have "\<dots> = map (\<lambda>file. attachment_key kb (Filename file)) (Files (Request req))"
    using assms(3) by (intro map_cong refl File_without_dotdot[OF assms(1)]) (simp add: list_all_iff)
  finally have "generatePresignedURLs h kb req = (Inr (issued_uploads h kb req), [])
       \<and> map Key (Files_u (issued_uploads h kb req)) =
           map (\<lambda>file. attachment_key kb (Filename file)) (Files (Request req))"
    using generatePresignedURLs_granted[OF assms(4)] by simp
  then have "\<exists>uploads. generatePresignedURLs h kb req = (Inr uploads, [])
               \<and> map Key (Files_u uploads) =
                   map (\<lambda>file. attachment_key kb (Filename file)) (Files (Request req))"
    by (rule exI)
  with k v show ?thesis by blast
qed

theorem attachment_names_are_joined_to_the_prefix_witness:
  "valid_identity ex_ticket_builder \<and> no_dotdot ''./a//b.jpg''
   \<and> list_all (\<lambda>file. no_dotdot (Filename file)) (Files (Request ex_ticket))
   \<and> list_all (granted ex_handler) (slot_requests ex_ticket_builder ex_ticket)
   \<and> map Filename (Files (Request ex_ticket)) = [''a.jpg'', ''a.jpg'']
   \<and> File ex_ticket_builder ''./a//b.jpg'' =
       ''failures/myapp/prod/2024/03/15/550e8400-e29b-41d4-a716-446655440000/files/a/b.jpg''
   \<and> File ex_ticket_builder ''a.jpg'' =
       ''failures/myapp/prod/2024/03/15/550e8400-e29b-41d4-a716-446655440000/files/a.jpg''
   \<and> (\<exists>uploads. generatePresignedURLs ex_handler ex_ticket_builder ex_ticket = (Inr uploads, [])
         \<and> map Key (Files_u uploads) =
             [''failures/myapp/prod/2024/03/15/550e8400-e29b-41d4-a716-446655440000/files/a.jpg'',
              ''failures/myapp/prod/2024/03/15/550e8400-e29b-41d4-a716-446655440000/files/a.jpg''])"
proof -
  have n: "map Filename (Files (Request ex_ticket)) = [''a.jpg'', ''a.jpg'']"
    by (simp add: ex_ticket_def)
  have g: "list_all (granted ex_handler) (slot_requests ex_ticket_builder ex_ticket)"
    by (rule ex_handler_grants)
  have a: "attachment_key ex_ticket_builder ''a.jpg'' =
       ''failures/myapp/prod/2024/03/15/550e8400-e29b-41d4-a716-446655440000/files/a.jpg''"
    by (simp add: attachment_key_clean[OF clean_a_jpg] ex_ticket_prefix)
  note w1 = attachment_names_are_joined_to_the_prefix
    [OF ex_ticket_builder_valid no_dotdot_example ex_ticket_files_no_dotdot g]
  note w2 = attachment_names_are_joined_to_the_prefix
    [OF ex_ticket_builder_valid clean_filename_no_dotdot[OF clean_a_jpg] ex_ticket_files_no_dotdot g]
  have f1: "File ex_ticket_builder ''./a//b.jpg'' =
       ''failures/myapp/prod/2024/03/15/550e8400-e29b-41d4-a716-446655440000/files/a/b.jpg''"
    using w1[THEN conjunct1]
    by (simp add: attachment_key_def kept_segments_example ex_ticket_prefix)
  have f2: "File ex_ticket_builder ''a.jpg'' =
       ''failures/myapp/prod/2024/03/15/550e8400-e29b-41d4-a716-446655440000/files/a.jpg''"
    using w2[THEN conjunct1] by (simp add: a)
  from w1[THEN conjunct2, THEN conjunct2] obtain uploads where
    u: "generatePresignedURLs ex_handler ex_ticket_builder ex_ticket = (Inr uploads, [])"
    and ks: "map Key (Files_u uploads) =
      map (\<lambda>file. attachment_key ex_ticket_builder (Filename file)) (Files (Request ex_ticket))"
    by blast
  have ks': "map Key (Files_u uploads) =
             [''failures/myapp/prod/2024/03/15/550e8400-e29b-41d4-a716-446655440000/files/a.jpg'',
              ''failures/myapp/prod/2024/03/15/550e8400-e29b-41d4-a716-446655440000/files/a.jpg'']"
    using ks by (simp add: ex_ticket_def a)
  have e: "\<exists>uploads. generatePresignedURLs ex_handler ex_ticket_builder ex_ticket = (Inr uploads, [])
         \<and> map Key (Files_u uploads) =
             [''failures/myapp/prod/2024/03/15/550e8400-e29b-41d4-a716-446655440000/files/a.jpg'',
              ''failures/myapp/prod/2024/03/15/550e8400-e29b-41d4-a716-446655440000/files/a.jpg'']"
    using u ks' by (intro exI[of _ uploads] conjI) assumption+
  show ?thesis
    using ex_ticket_builder_valid no_dotdot_example ex_ticket_files_no_dotdot g n f1 f2 e
    by (intro conjI) assumption+
qed

text \<open>
  The claim as stated fails: a file name with a \<open>.\<close> segment, a double slash or a
  trailing slash is not used verbatim; \<^verbatim>\<open>path.Join\<close> drops these segments.
\<close>

theorem attachment_names_are_rewritten:
  "File ex_builder ''./a//b.jpg'' = ''failures/myapp/prod/2024/03/15/abc-123/files/a/b.jpg''
   \<and> File ex_builder ''./a//b.jpg'' \<noteq> Prefix ex_builder @ ''files/'' @ ''./a//b.jpg''
   \<and> File ex_builder ''a.jpg/'' = ''failures/myapp/prod/2024/03/15/abc-123/files/a.jpg''
   \<and> File ex_builder ''a.jpg/'' \<noteq> Prefix ex_builder @ ''files/'' @ ''a.jpg/''"
  by code_simp

text \<open>
  C4 states that the keys derived for two distinct bundle identifiers never collide. At
  the input below, a ticket request that passes the validation names its attachment
  \<open>../../xyz-789/envelope.json\<close>. The ticket that the handler issues for the fresh bundle
  holds, for this attachment, a write authorization whose key lies outside the prefix of
  the ticket: it is the envelope key of the bundle \<open>xyz-789\<close>.
\<close>

theorem attachment_key_collides_with_other_bundle:
  "ValidateUploadTicketRequest (\<lambda>s. s) (\<lambda>s. s) ex_ticket_traversal (cfg ex_handler) = []
   \<and> ex_uuid \<noteq> ''xyz-789''
   \<and> (\<exists>t. fst (UploadTicket (\<lambda>s. s) (\<lambda>s. s) ex_handler ex_uuid ex_date (Inr ex_ticket_traversal)) =
             \<lparr>status = 200, body = TicketBody t\<rparr>
         \<and> S3Prefix t = ''failures/myapp/prod/2024/03/15/550e8400-e29b-41d4-a716-446655440000/''
         \<and> map Key (Files_u (Uploads t)) = [''failures/myapp/prod/2024/03/15/xyz-789/envelope.json''])
   \<and> Envelope (NewBuilder ''myapp'' ''prod'' ''xyz-789'' ex_date) =
       ''failures/myapp/prod/2024/03/15/xyz-789/envelope.json''
   \<and> File (NewBuilder ''myapp'' ''prod'' ex_uuid ex_date) ''../../xyz-789/envelope.json'' =
       Envelope (NewBuilder ''myapp'' ''prod'' ''xyz-789'' ex_date)
   \<and> set (AllKeys (NewBuilder ''myapp'' ''prod'' ex_uuid ex_date) [''../../xyz-789/envelope.json''])
       \<inter> set (AllKeys (NewBuilder ''myapp'' ''prod'' ''xyz-789'' ex_date) []) \<noteq> {}"
proof -
  let ?kb = "NewBuilder ''myapp'' ''prod'' ex_uuid ex_date"
  let ?other = "NewBuilder ''myapp'' ''prod'' ''xyz-789'' ex_date"
  have v: "ValidateUploadTicketRequest (\<lambda>s. s) (\<lambda>s. s) ex_ticket_traversal (cfg ex_handler) = []"
    unfolding ex_cfg_handlers by code_simp
  have i: "ex_uuid \<noteq> ''xyz-789''" by (simp add: ex_uuid_def)
  have kb: "NewBuilder (Project ex_ticket_traversal) (Env ex_ticket_traversal) ex_uuid ex_date = ?kb"
    by (simp add: ex_ticket_traversal_def)
  have p: "Prefix ?kb = ''failures/myapp/prod/2024/03/15/550e8400-e29b-41d4-a716-446655440000/''"
    using ex_ticket_prefix by (simp add: ex_ticket_builder_def ex_ticket_def)
  have f: "File ?kb ''../../xyz-789/envelope.json'' = ''failures/myapp/prod/2024/03/15/xyz-789/envelope.json''"
    by code_simp
  have e: "Envelope ?other = ''failures/myapp/prod/2024/03/15/xyz-789/envelope.json''"
    using fixed_keys(1)[OF ex_other_valid] by (simp add: Prefix_def NewBuilder_def ex_date_def
        Format_2006_01_02_def appendInt_def decimal_4 decimal_2 decimal_1 digit_char_def)
  have ks: "map Key (Files_u (issued_uploads ex_handler ?kb ex_ticket_traversal)) =
              [''failures/myapp/prod/2024/03/15/xyz-789/envelope.json'']"
    using f by (simp add: issued_uploads_def slot_requests_def grant_of_def ex_ticket_traversal_def)
  from UploadTicket_granted[OF v ex_handler_grants, of ex_uuid ex_date]
  have r: "fst (UploadTicket (\<lambda>s. s) (\<lambda>s. s) ex_handler ex_uuid ex_date (Inr ex_ticket_traversal)) =
      \<lparr>status = 200,
       body = TicketBody \<lparr>FailureID = ex_uuid, S3Prefix = Prefix ?kb,
                          Uploads = issued_uploads ex_handler ?kb ex_ticket_traversal,
                          ExpiresInSeconds = PresignTTL (cfg ex_handler)\<rparr>\<rparr>"
    by (simp add: kb writeJSON_def)
  have t: "\<exists>t. fst (UploadTicket (\<lambda>s. s) (\<lambda>s. s) ex_handler ex_uuid ex_date (Inr ex_ticket_traversal)) =
             \<lparr>status = 200, body = TicketBody t\<rparr>
         \<and> S3Prefix t = ''failures/myapp/prod/2024/03/15/550e8400-e29b-41d4-a716-446655440000/''
         \<and> map Key (Files_u (Uploads t)) = [''failures/myapp/prod/2024/03/15/xyz-789/envelope.json'']"
    using r p ks by auto
  have fe: "File ?kb ''../../xyz-789/envelope.json'' = Envelope ?other"
    using f e by simp
  have "Envelope ?other \<in> set (AllKeys ?kb [''../../xyz-789/envelope.json''])"
    using fe by (simp add: AllKeys_eq)
  moreover have "Envelope ?other \<in> set (AllKeys ?other [])"
    by (simp add: AllKeys_eq RequiredKeys_def)
  ultimately have c: "set (AllKeys ?kb [''../../xyz-789/envelope.json'']) \<inter> set (AllKeys ?other []) \<noteq> {}"
    by blast
  show ?thesis using v i t e fe c by (intro conjI) assumption+
qed

subsection \<open>Write authorizations\<close>

text \<open>
  C6. For every ticket request that passes the validation, if the store refuses any single
  one of the write authorizations that the request asks for, the whole operation fails:
  the response is the error \<open>presign_failed\<close> with status 500 and no detail, and it holds
  no ticket, hence no authorization at all.
\<close>

theorem ticket_is_all_or_nothing:
  assumes "ValidateUploadTicketRequest ToUpper ToLower req (cfg h) = []"
    and "kc \<in> set (slot_requests (NewBuilder (Project req) (Env req) newID now) req)"
    and "\<not> granted h kc"
  shows "fst (UploadTicket ToUpper ToLower h newID now (Inr req)) =
           \<lparr>status = 500,
            body = ErrorBody \<lparr>Error = ''Failed to generate presigned URLs'', Code = ''presign_failed'',
                              Details = []\<rparr>\<rparr>"
proof -
  have "\<not> list_all (granted h) (slot_requests (NewBuilder (Project req) (Env req) newID now) req)"
    using assms(2,3) by (auto simp: list_all_iff)
  from UploadTicket_refused[OF assms(1) this] show ?thesis
    by (simp add: presign_failed_response_def writeError_def writeJSON_def)
qed

theorem ticket_is_all_or_nothing_witness:
  "ValidateUploadTicketRequest (\<lambda>s. s) (\<lambda>s. s) ex_ticket (cfg ex_handler_one_refusal) = []
   \<and> (''failures/myapp/prod/2024/03/15/550e8400-e29b-41d4-a716-446655440000/files/a.jpg'', ''image/jpeg'')
       \<in> set (slot_requests (NewBuilder (Project ex_ticket) (Env ex_ticket) ex_uuid ex_date) ex_ticket)
   \<and> \<not> granted ex_handler_one_refusal
         (''failures/myapp/prod/2024/03/15/550e8400-e29b-41d4-a716-446655440000/files/a.jpg'', ''image/jpeg'')
   \<and> granted ex_handler_one_refusal
         (Envelope (NewBuilder (Project ex_ticket) (Env ex_ticket) ex_uuid ex_date), ''application/json'')
   \<and> fst (UploadTicket (\<lambda>s. s) (\<lambda>s. s) ex_handler_one_refusal ex_uuid ex_date (Inr ex_ticket)) =
       \<lparr>status = 500,
        body = ErrorBody \<lparr>Error = ''Failed to generate presigned URLs'', Code = ''presign_failed'',
                          Details = []\<rparr>\<rparr>"
proof -
  let ?kc = "(''failures/myapp/prod/2024/03/15/550e8400-e29b-41d4-a716-446655440000/files/a.jpg'',
              ''image/jpeg'')"
  have v: "ValidateUploadTicketRequest (\<lambda>s. s) (\<lambda>s. s) ex_ticket (cfg ex_handler_one_refusal) = []"
    by (simp add: ex_cfg_handlers ex_ticket_valid)
  have f: "File ex_ticket_builder ''a.jpg'' =
       ''failures/myapp/prod/2024/03/15/550e8400-e29b-41d4-a716-446655440000/files/a.jpg''"
    using File_clean_filename[OF ex_ticket_builder_valid clean_a_jpg] by (simp add: ex_ticket_prefix)
  have m: "?kc \<in> set (slot_requests (NewBuilder (Project ex_ticket) (Env ex_ticket) ex_uuid ex_date) ex_ticket)"
    using f by (simp add: slot_requests_def ex_ticket_builder_def file_content_type_def ex_ticket_def)
  have r: "\<not> granted ex_handler_one_refusal ?kc"
    by (simp add: granted_def ex_handler_one_refusal_def)
  have e: "Envelope ex_ticket_builder =
       ''failures/myapp/prod/2024/03/15/550e8400-e29b-41d4-a716-446655440000/envelope.json''"
    using fixed_keys(1)[OF ex_ticket_builder_valid] by (simp add: ex_ticket_prefix)
  have g: "granted ex_handler_one_refusal
         (Envelope (NewBuilder (Project ex_ticket) (Env ex_ticket) ex_uuid ex_date), ''application/json'')"
    using e by (simp add: granted_def ex_handler_one_refusal_def ex_ticket_builder_def)
  note w = ticket_is_all_or_nothing[OF v m r]
  show ?thesis using v m r g w by (intro conjI) assumption+
qed

lemma granted_issued_by: "granted h kc \<Longrightarrow> issued_by h (grant_of h kc) kc"
  by (cases "PresignPutObject (client (presigner h)) (bucket (presigner h)) (fst kc) (snd kc)
               (ttl (presigner h))")
    (simp_all add: granted_def issued_by_def grant_of_def)

lemma ticket_slots_permute:
  "set (required_slots kb req @ [response_slot kb] @ file_slots kb req) = set (slot_requests kb req)"
  by (auto simp: required_slots_def response_slot_def file_slots_def slot_requests_def)

lemma authorizations_issued_slots:
  "authorizations (issued_uploads h kb req) =
     map (grant_of h) (required_slots kb req @ [response_slot kb] @ file_slots kb req)"
  by (simp add: authorizations_def issued_uploads_def slot_requests_def required_slots_def
      response_slot_def file_slots_def)

lemma list_all2_map_self: "\<forall>x \<in> set xs. P (g x) x \<Longrightarrow> list_all2 P (map g xs) xs"
  by (induction xs) simp_all

lemma list_all2_left: "list_all2 P xs ys \<Longrightarrow> (\<And>x y. P x y \<Longrightarrow> Q x) \<Longrightarrow> list_all Q xs"
  by (induction rule: list_all2_induct) simp_all

lemma authorizations_issued_by:
  assumes "list_all (granted h) (slot_requests kb req)"
  shows "list_all2 (issued_by h) (authorizations (issued_uploads h kb req))
           (required_slots kb req @ [response_slot kb] @ file_slots kb req)"
proof -
  have "\<forall>kc \<in> set (required_slots kb req @ [response_slot kb] @ file_slots kb req). granted h kc"
    using assms unfolding ticket_slots_permute by (simp add: list_all_iff)
  then have "\<forall>kc \<in> set (required_slots kb req @ [response_slot kb] @ file_slots kb req).
      issued_by h (grant_of h kc) kc"
    using granted_issued_by by blast
  then show ?thesis
    unfolding authorizations_issued_slots by (rule list_all2_map_self)
qed

text \<open>
  C7. For every ticket issued, the number of write authorizations in it is 4 (envelope,
  raw request, request headers, checksums) plus 1 (raw response) plus the number of files
  declared in the request. Each of them is the authorization that the store issued for
  its slot: it holds the key of the slot, as \<^verbatim>\<open>AllKeys\<close> lists them for the declared file
  names, and the URL that the store answered for this key and the slot's content type.
\<close>

theorem ticket_has_five_plus_files_authorizations:
  assumes "body (fst (UploadTicket ToUpper ToLower h newID now (Inr req))) = TicketBody t"
  shows "length (authorizations (Uploads t)) = 4 + 1 + length (Files (Request req))
         \<and> map Key (authorizations (Uploads t)) =
             AllKeys (NewBuilder (Project req) (Env req) newID now) (map Filename (Files (Request req)))
         \<and> list_all2 (issued_by h) (authorizations (Uploads t))
             (required_slots (NewBuilder (Project req) (Env req) newID now) req
              @ [response_slot (NewBuilder (Project req) (Env req) newID now)]
              @ file_slots (NewBuilder (Project req) (Env req) newID now) req)
         \<and> length (required_slots (NewBuilder (Project req) (Env req) newID now) req) = 4
         \<and> length (file_slots (NewBuilder (Project req) (Env req) newID now) req) =
             length (Files (Request req))"
proof (cases "ValidateUploadTicketRequest ToUpper ToLower req (cfg h) = []")
  case False
  from UploadTicket_invalid[OF this, of newID now] assms show ?thesis
    by (simp add: writeError_def writeJSON_def)
next
  case True
  let ?kb = "NewBuilder (Project req) (Env req) newID now"
  show ?thesis
  proof (cases "list_all (granted h) (slot_requests ?kb req)")
    case False
    from UploadTicket_refused[OF True this] assms show ?thesis
      by (simp add: presign_failed_response_def writeError_def writeJSON_def)
  next
    case g: True
    from UploadTicket_granted[OF True g] assms
    have u: "Uploads t = issued_uploads h ?kb req"
      by (auto simp: writeJSON_def)
    have l: "length (required_slots ?kb req) = 4" "length (file_slots ?kb req) = length (Files (Request req))"
      by (simp_all add: required_slots_def file_slots_def)
    show ?thesis
      unfolding u using authorizations_issued_by[OF g] l
      by (simp only: length_authorizations_issued authorizations_issued simp_thms)
  qed
qed

theorem ticket_has_five_plus_files_authorizations_witness:
  "\<exists>t. body (fst (UploadTicket (\<lambda>s. s) (\<lambda>s. s) ex_handler ex_uuid ex_date (Inr ex_ticket))) = TicketBody t
       \<and> length (Files (Request ex_ticket)) = 2
       \<and> length (authorizations (Uploads t)) = 7
       \<and> map Key (authorizations (Uploads t)) =
           AllKeys (NewBuilder (Project ex_ticket) (Env ex_ticket) ex_uuid ex_date) [''a.jpg'', ''a.jpg'']
       \<and> list_all (\<lambda>a. PutURL a = ''https://s3.example/put/'' @ Key a) (authorizations (Uploads t))"
proof -
  have v: "ValidateUploadTicketRequest (\<lambda>s. s) (\<lambda>s. s) ex_ticket (cfg ex_handler) = []"
    by (simp add: ex_cfg_handlers ex_ticket_valid)
  from UploadTicket_granted[OF v ex_handler_grants, of ex_uuid ex_date]
  obtain t where t: "body (fst (UploadTicket (\<lambda>s. s) (\<lambda>s. s) ex_handler ex_uuid ex_date (Inr ex_ticket))) =
                       TicketBody t"
    by (simp add: writeJSON_def)
  have n: "length (Files (Request ex_ticket)) = 2" "map Filename (Files (Request ex_ticket)) = [''a.jpg'', ''a.jpg'']"
    by (simp_all add: ex_ticket_def)
  note w = ticket_has_five_plus_files_authorizations[OF t]
  from w n have l: "length (authorizations (Uploads t)) = 7"
    and k: "map Key (authorizations (Uploads t)) =
           AllKeys (NewBuilder (Project ex_ticket) (Env ex_ticket) ex_uuid ex_date) [''a.jpg'', ''a.jpg'']"
    by simp_all
  have s: "issued_by ex_handler a kc \<Longrightarrow> PutURL a = ''https://s3.example/put/'' @ Key a" for a kc
    by (auto simp: issued_by_def ex_handler_def ex_s3_def)
  from w have "list_all2 (issued_by ex_handler) (authorizations (Uploads t))
             (required_slots (NewBuilder (Project ex_ticket) (Env ex_ticket) ex_uuid ex_date) ex_ticket
              @ [response_slot (NewBuilder (Project ex_ticket) (Env ex_ticket) ex_uuid ex_date)]
              @ file_slots (NewBuilder (Project ex_ticket) (Env ex_ticket) ex_uuid ex_date) ex_ticket)"
    by blast
  then have "list_all (\<lambda>a. PutURL a = ''https://s3.example/put/'' @ Key a) (authorizations (Uploads t))"
    using s by (rule list_all2_left)
  with t n(1) l k show ?thesis by blast
qed

end
